theory Spec2Isabelle
  imports Complex_Main "HOL-Library.Sublist"
begin

section \<open>The alias resolution and caching engine of src/extension.ts\<close>

text \<open>
  The extension resolves path aliases of a tsconfig.json or jsconfig.json inside the
  \<^verbatim>\<open>@use\<close> and \<^verbatim>\<open>@import\<close> statements of a style sheet. The functions of
  \<^verbatim>\<open>src/extension.ts\<close> are embedded here one by one, under their own names. (The
  repository holds a second, synchronous version of the same provider, without the
  cache of the walk and without the relative fallback; it is not the one embedded.)

  Conventions of the embedding.
  \<^item> JavaScript strings are \<^typ>\<open>string\<close>: one \<^typ>\<open>char\<close> per UTF-16 code unit, so the
    model covers texts and paths whose code units are below 256.
  \<^item> \<^verbatim>\<open>string | null\<close> is \<^typ>\<open>string option\<close>; a property that may be missing adds one more
    \<open>option\<close> (\<open>None\<close> is \<^verbatim>\<open>undefined\<close>).
  \<^item> The three module-level caches, the \<^verbatim>\<open>lastIndex\<close> of the module-level global
    regular expression and the sequence of calls made to the imported modules are the
    fields of the record \<open>state\<close>, which every function takes and returns.
  \<^item> The imported modules \<^verbatim>\<open>path\<close> and \<^verbatim>\<open>fs/promises\<close> and the built-in
    \<^verbatim>\<open>JSON.parse\<close> are parameters. A rejected promise or a thrown exception is a value
    \<open>Inl e\<close> of the result.
  \<^item> A request is handled to completion before the next one starts: the \<^verbatim>\<open>await\<close>s of
    one call are not interleaved with another call.
  \<^item> A \<^verbatim>\<open>Record\<close> is the list of its own properties in the order \<^verbatim>\<open>Object.keys\<close>
    gives them. Names inherited from \<^verbatim>\<open>Object.prototype\<close> (\<^verbatim>\<open>constructor\<close>,
    \<^verbatim>\<open>__proto__\<close>, ...) are outside the model.
\<close>

subsection \<open>The imported modules\<close>

datatype error = SyntaxError | TypeError | FsError

datatype call = Access string | Stat string | ReadFile string | JSON_parse string

record Stats =
  isFile :: bool
  isDirectory :: bool
  mtimeMs :: rat

text \<open>
  \<^verbatim>\<open>fs/promises\<close>: \<open>fs_access F p\<close> says that \<^verbatim>\<open>fs.access(p, fs.constants.R_OK)\<close> resolves;
  \<open>fs_stat F p\<close> and \<open>fs_readFile F p\<close> are \<open>None\<close> when the promise is rejected.
\<close>

record fs_module =
  fs_access :: "string \<Rightarrow> bool"
  fs_stat :: "string \<Rightarrow> Stats option"
  fs_readFile :: "string \<Rightarrow> string option"

text \<open>
  \<^verbatim>\<open>path\<close>: \<open>path_root P p\<close> is \<^verbatim>\<open>path.parse(p).root\<close>; \<open>path_join\<close> and
  \<open>path_resolve\<close> are only called with two arguments.
\<close>

record path_module =
  path_join :: "string \<Rightarrow> string \<Rightarrow> string"
  path_dirname :: "string \<Rightarrow> string"
  path_root :: "string \<Rightarrow> string"
  path_resolve :: "string \<Rightarrow> string \<Rightarrow> string"

text \<open>The value of a JSON text. An object lists its properties in iteration order.\<close>

datatype json =
    JNull
  | JBool bool
  | JNum rat
  | JStr string
  | JArr "json list"
  | JObj "(string \<times> json) list"

subsection \<open>The editor's types\<close>

record Position =
  line :: nat
  character :: nat

record Range =
  range_start :: Position
  range_end :: Position

text \<open>The target of a link is \<^verbatim>\<open>vscode.Uri.file(resolvedPath)\<close>, kept as the path.\<close>

record DocumentLink =
  link_range :: Range
  link_target :: string

record TextDocument =
  fileName :: string
  getText :: string
  positionAt :: "int \<Rightarrow> Position"

definition translate :: "Position \<Rightarrow> nat \<Rightarrow> nat \<Rightarrow> Position" where
  "translate p lineDelta characterDelta =
     \<lparr>line = line p + lineDelta, character = character p + characterDelta\<rparr>"

subsection \<open>Module state\<close>

type_synonym aliases = "(string \<times> string list) list"

record ConfigCacheEntry =
  aliases :: aliases
  lastModified :: rat
  configPath :: string

record state =
  configCache :: "string \<rightharpoonup> ConfigCacheEntry"
  configPathCache :: "string \<rightharpoonup> string option"
  documentLinkCache :: "string \<rightharpoonup> DocumentLink list"
  lastIndex :: nat
  calls :: "call list"

definition called :: "call \<Rightarrow> state \<Rightarrow> state" where
  "called c s = s\<lparr>calls := calls s @ [c]\<rparr>"

subsection \<open>JavaScript built-ins\<close>

text \<open>\<^verbatim>\<open>s.startsWith(p)\<close>.\<close>

definition startsWith :: "string \<Rightarrow> string \<Rightarrow> bool" where
  "startsWith s p = (take (length p) s = p)"

text \<open>\<^verbatim>\<open>s.replace(pat, rep)\<close> with a string pattern: the first occurrence only.\<close>

fun replace :: "string \<Rightarrow> string \<Rightarrow> string \<Rightarrow> string" where
  "replace [] pat rep = (if pat = [] then rep else [])"
| "replace (c # cs) pat rep =
     (if startsWith (c # cs) pat then rep @ drop (length pat) (c # cs)
      else c # replace cs pat rep)"

text \<open>\<^verbatim>\<open>s.indexOf(t)\<close>: the index of the first occurrence, or -1.\<close>

fun indexOf_from :: "nat \<Rightarrow> string \<Rightarrow> string \<Rightarrow> int" where
  "indexOf_from i [] t = (if t = [] then int i else - 1)"
| "indexOf_from i (c # cs) t =
     (if startsWith (c # cs) t then int i else indexOf_from (Suc i) cs t)"

definition indexOf :: "string \<Rightarrow> string \<Rightarrow> int" where
  "indexOf s t = indexOf_from 0 s t"

text \<open>The truthiness of a \<^verbatim>\<open>string | null | undefined\<close>: a string that is not empty.\<close>

fun truthy :: "string option \<Rightarrow> bool" where
  "truthy None = False"
| "truthy (Some p) = (p \<noteq> [])"

text \<open>Reading \<^verbatim>\<open>cache[key]\<close> from a \<^verbatim>\<open>Record<string, string | null>\<close>.\<close>

fun lookup :: "(string \<rightharpoonup> string option) \<Rightarrow> string \<Rightarrow> string option" where
  "lookup m k = (case m k of None \<Rightarrow> None | Some v \<Rightarrow> v)"

subsection \<open>fileExists\<close>

definition fileExists :: "fs_module \<Rightarrow> string \<Rightarrow> state \<Rightarrow> bool \<times> state" where
  "fileExists F filePath s = (fs_access F filePath, called (Access filePath) s)"

subsection \<open>findNearestConfig\<close>

text \<open>
  The \<^verbatim>\<open>while\<close> loop of \<^verbatim>\<open>findNearestConfig\<close>, started at \<^verbatim>\<open>fileDir\<close>. The loop ends
  only when \<^verbatim>\<open>path.dirname\<close> reaches a directory that is its own root, so the result is
  \<open>None\<close> when it does not return.
\<close>

partial_function (option) findNearestConfig ::
  "path_module \<Rightarrow> fs_module \<Rightarrow> string \<Rightarrow> state \<Rightarrow> (string option \<times> state) option" where
  "findNearestConfig P F currentDir s =
     (if currentDir = path_root P currentDir then Some (None, s)
      else if truthy (lookup (configPathCache s) currentDir)
        then Some (lookup (configPathCache s) currentDir, s)
      else
        let tsConfigPath = path_join P currentDir ''tsconfig.json'';
            r1 = fileExists F tsConfigPath s
        in if fst r1
           then Some (Some tsConfigPath,
                  (snd r1)\<lparr>configPathCache :=
                     (configPathCache (snd r1))(currentDir \<mapsto> Some tsConfigPath)\<rparr>)
           else
             let jsConfigPath = path_join P currentDir ''jsconfig.json'';
                 r2 = fileExists F jsConfigPath (snd r1)
             in if fst r2
                then Some (Some jsConfigPath,
                       (snd r2)\<lparr>configPathCache :=
                          (configPathCache (snd r2))(currentDir \<mapsto> Some jsConfigPath)\<rparr>)
                else findNearestConfig P F (path_dirname P currentDir)
                       ((snd r2)\<lparr>configPathCache :=
                          (configPathCache (snd r2))(currentDir \<mapsto> None)\<rparr>))"

declare findNearestConfig.simps [code]

subsection \<open>Objects as property lists\<close>

text \<open>
  \<^verbatim>\<open>Object.keys\<close> lists the array-index names first, in ascending numeric order, and
  then the other names in the order of their creation. An array index is a canonical
  decimal numeral below \<open>2^32 - 1\<close>.
\<close>

definition is_digit :: "char \<Rightarrow> bool" where
  "is_digit c = (48 \<le> (of_char c :: nat) \<and> (of_char c :: nat) \<le> 57)"

definition dec_val :: "string \<Rightarrow> nat" where
  "dec_val k = foldl (\<lambda>n c. 10 * n + ((of_char c :: nat) - 48)) 0 k"

definition is_array_index :: "string \<Rightarrow> bool" where
  "is_array_index k =
     (k \<noteq> [] \<and> list_all is_digit k \<and> (k = ''0'' \<or> hd k \<noteq> CHR ''0'') \<and>
      dec_val k < 2 ^ 32 - 1)"

definition Object_keys :: "(string \<times> 'v) list \<Rightarrow> string list" where
  "Object_keys obj = map fst obj"

definition obj_get :: "(string \<times> 'v) list \<Rightarrow> string \<Rightarrow> 'v option" where
  "obj_get obj k = map_of obj k"

fun obj_update :: "string \<Rightarrow> 'v \<Rightarrow> (string \<times> 'v) list \<Rightarrow> (string \<times> 'v) list" where
  "obj_update k v [] = []"
| "obj_update k v ((k', v') # kvs) =
     (if k' = k then (k, v) # kvs else (k', v') # obj_update k v kvs)"

fun obj_insert_index :: "string \<Rightarrow> 'v \<Rightarrow> (string \<times> 'v) list \<Rightarrow> (string \<times> 'v) list" where
  "obj_insert_index k v [] = [(k, v)]"
| "obj_insert_index k v ((k', v') # kvs) =
     (if is_array_index k' \<and> dec_val k' < dec_val k
      then (k', v') # obj_insert_index k v kvs
      else (k, v) # (k', v') # kvs)"

text \<open>\<^verbatim>\<open>obj[k] = v\<close>.\<close>

definition obj_set :: "(string \<times> 'v) list \<Rightarrow> string \<Rightarrow> 'v \<Rightarrow> (string \<times> 'v) list" where
  "obj_set obj k v =
     (if k \<in> set (Object_keys obj) then obj_update k v obj
      else if is_array_index k then obj_insert_index k v obj
      else obj @ [(k, v)])"

subsection \<open>getTsConfigAliases\<close>

text \<open>
  \<^verbatim>\<open>config.compilerOptions?.paths || {}\<close>. Reading a property of \<^verbatim>\<open>null\<close> throws a
  TypeError; a number, a boolean, a string or an array has neither a property
  \<^verbatim>\<open>compilerOptions\<close> nor a property \<^verbatim>\<open>paths\<close>.
\<close>

fun get_prop :: "json \<Rightarrow> string \<Rightarrow> error + json option" where
  "get_prop JNull name = Inl TypeError"
| "get_prop (JObj kvs) name = Inr (map_of kvs name)"
| "get_prop v name = Inr None"

fun json_truthy :: "json \<Rightarrow> bool" where
  "json_truthy JNull = False"
| "json_truthy (JBool b) = b"
| "json_truthy (JNum n) = (n \<noteq> 0)"
| "json_truthy (JStr s) = (s \<noteq> [])"
| "json_truthy v = True"

definition config_paths :: "json \<Rightarrow> error + json" where
  "config_paths config =
     (case get_prop config ''compilerOptions'' of
        Inl e \<Rightarrow> Inl e
      | Inr None \<Rightarrow> Inr (JObj [])
      | Inr (Some JNull) \<Rightarrow> Inr (JObj [])
      | Inr (Some compilerOptions) \<Rightarrow>
          (case get_prop compilerOptions ''paths'' of
             Inl e \<Rightarrow> Inl e
           | Inr None \<Rightarrow> Inr (JObj [])
           | Inr (Some paths) \<Rightarrow> Inr (if json_truthy paths then paths else JObj [])))"

text \<open>The decimal numeral of an index, as \<^verbatim>\<open>for ... in\<close> names the elements of an array.\<close>

fun dec :: "nat \<Rightarrow> string" where
  "dec n = (if n < 10 then [char_of (48 + n)] else dec (n div 10) @ [char_of (48 + n mod 10)])"

text \<open>
  The pairs \<open>(alias, paths[alias])\<close> that \<^verbatim>\<open>for (const alias in paths)\<close> visits: the
  properties of an object, the elements of an array, the characters of a string, and
  nothing of a number or a boolean.
\<close>

fun for_in_entries :: "json \<Rightarrow> (string \<times> json) list" where
  "for_in_entries (JObj kvs) = kvs"
| "for_in_entries (JArr xs) = zip (map dec [0..<length xs]) xs"
| "for_in_entries (JStr s) = zip (map dec [0..<length s]) (map (\<lambda>c. JStr [c]) s)"
| "for_in_entries v = []"

text \<open>
  \<^verbatim>\<open>(p: string) => path.resolve(path.dirname(configPath), p.replace('/*', ''))\<close>; only a
  string has a method \<^verbatim>\<open>replace\<close>.
\<close>

fun resolve_target :: "path_module \<Rightarrow> string \<Rightarrow> json \<Rightarrow> error + string" where
  "resolve_target P cfg (JStr p) =
     Inr (path_resolve P (path_dirname P cfg) (replace p ''/*'' ''''))"
| "resolve_target P cfg v = Inl TypeError"

fun map_targets :: "path_module \<Rightarrow> string \<Rightarrow> json list \<Rightarrow> error + string list" where
  "map_targets P cfg [] = Inr []"
| "map_targets P cfg (p # ps) =
     (case resolve_target P cfg p of
        Inl e \<Rightarrow> Inl e
      | Inr t \<Rightarrow> (case map_targets P cfg ps of
                   Inl e \<Rightarrow> Inl e
                 | Inr ts \<Rightarrow> Inr (t # ts)))"

text \<open>\<^verbatim>\<open>paths[alias].map(...)\<close>; only an array has a method \<^verbatim>\<open>map\<close>.\<close>

fun actualPaths :: "path_module \<Rightarrow> string \<Rightarrow> json \<Rightarrow> error + string list" where
  "actualPaths P cfg (JArr ps) = map_targets P cfg ps"
| "actualPaths P cfg v = Inl TypeError"

text \<open>The body of the \<^verbatim>\<open>for ... in\<close> loop, over the entries that are left.\<close>

fun build_aliases ::
  "path_module \<Rightarrow> string \<Rightarrow> (string \<times> json) list \<Rightarrow> aliases \<Rightarrow> error + aliases" where
  "build_aliases P cfg [] acc = Inr acc"
| "build_aliases P cfg ((alias, v) # rest) acc =
     (case actualPaths P cfg v of
        Inl e \<Rightarrow> Inl e
      | Inr ps \<Rightarrow> build_aliases P cfg rest (obj_set acc (replace alias ''/*'' '''') ps))"

text \<open>
  Lines 75 to 83: from the text of the configuration file to the alias table. The
  parameter \<^verbatim>\<open>configPath\<close> of the source is written \<open>cfg\<close>, since \<open>configPath\<close> is the field
  of the cache entry.
\<close>

definition parse_aliases ::
  "path_module \<Rightarrow> (string \<Rightarrow> json option) \<Rightarrow> string \<Rightarrow> string \<Rightarrow> error + aliases" where
  "parse_aliases P J cfg configContent =
     (case J configContent of
        None \<Rightarrow> Inl SyntaxError
      | Some config \<Rightarrow>
          (case config_paths config of
             Inl e \<Rightarrow> Inl e
           | Inr paths \<Rightarrow> build_aliases P cfg (for_in_entries paths) []))"

definition cache_fresh :: "ConfigCacheEntry option \<Rightarrow> rat \<Rightarrow> bool" where
  "cache_fresh cachedConfig lm =
     (case cachedConfig of None \<Rightarrow> False | Some c \<Rightarrow> lastModified c = lm)"

definition getTsConfigAliases ::
  "path_module \<Rightarrow> fs_module \<Rightarrow> (string \<Rightarrow> json option) \<Rightarrow> string \<Rightarrow> state \<Rightarrow>
     (error + aliases) \<times> state" where
  "getTsConfigAliases P F J cfg s =
     (let s1 = called (Stat cfg) s in
      (case fs_stat F cfg of
         None \<Rightarrow> (Inl FsError, s1)
       | Some st \<Rightarrow>
           (let lm = mtimeMs st; cachedConfig = configCache s1 cfg in
            if cache_fresh cachedConfig lm then (Inr (aliases (the cachedConfig)), s1)
            else
              (let s2 = called (ReadFile cfg) s1 in
               (case fs_readFile F cfg of
                  None \<Rightarrow> (Inl FsError, s2)
                | Some configContent \<Rightarrow>
                    (let s3 = called (JSON_parse configContent) s2 in
                     (case parse_aliases P J cfg configContent of
                        Inl e \<Rightarrow> (Inl e, s3)
                      | Inr als \<Rightarrow>
                          (let entry =
                                 \<lparr>aliases = als, lastModified = lm, configPath = cfg\<rparr>
                           in (Inr als,
                               s3\<lparr>configCache :=
                                    (configCache s3)(cfg \<mapsto> entry)\<rparr>)))))))))"

subsection \<open>tryWithExtensions\<close>

text \<open>The \<^verbatim>\<open>for\<close> loop over the extensions that are left.\<close>

fun try_extensions ::
  "fs_module \<Rightarrow> string \<Rightarrow> string list \<Rightarrow> state \<Rightarrow> string option \<times> state" where
  "try_extensions F filePath [] s = (None, s)"
| "try_extensions F filePath (ext # exts) s =
     (let possiblePath = filePath @ ext; r = fileExists F possiblePath s
      in if fst r then (Some possiblePath, snd r)
         else try_extensions F filePath exts (snd r))"

definition extensions :: "string list" where
  "extensions = ['''', ''.sass'', ''.scss'', ''.css'']"

definition tryWithExtensions ::
  "path_module \<Rightarrow> fs_module \<Rightarrow> TextDocument \<Rightarrow> string \<Rightarrow> state \<Rightarrow> string option \<times> state" where
  "tryWithExtensions P F document importPath s =
     (let filePath = path_join P (path_dirname P (fileName document)) importPath
      in try_extensions F filePath extensions s)"

subsection \<open>resolveAlias\<close>

text \<open>The \<^verbatim>\<open>for\<close> loop over the base paths that are left.\<close>

fun try_basePaths ::
  "path_module \<Rightarrow> fs_module \<Rightarrow> string \<Rightarrow> string list \<Rightarrow> state \<Rightarrow>
     (error + string option) \<times> state" where
  "try_basePaths P F relativePath [] s = (Inr None, s)"
| "try_basePaths P F relativePath (basePath # rest) s =
     (let resolvedPath = path_join P basePath relativePath;
          r = fileExists F resolvedPath s
      in if \<not> fst r then try_basePaths P F relativePath rest (snd r)
         else
           let s1 = called (Stat resolvedPath) (snd r) in
           case fs_stat F resolvedPath of
             None \<Rightarrow> (Inl FsError, s1)
           | Some st \<Rightarrow>
               if isFile st then (Inr (Some resolvedPath), s1)
               else if \<not> isDirectory st then (Inr None, s1)
               else
                 let indexPath = path_join P resolvedPath ''index.scss'';
                     mainPath = path_join P resolvedPath ''main.scss'';
                     ri = fileExists F indexPath s1
                 in if fst ri then (Inr (Some indexPath), snd ri)
                    else
                      let rm = fileExists F mainPath (snd ri)
                      in if fst rm then (Inr (Some mainPath), snd rm)
                         else (Inr None, snd rm))"

text \<open>\<^verbatim>\<open>Object.keys(aliases).find(alias => importPath.startsWith(alias))\<close>.\<close>

definition find_aliasKey :: "string \<Rightarrow> aliases \<Rightarrow> string option" where
  "find_aliasKey importPath als = find (\<lambda>alias. startsWith importPath alias) (Object_keys als)"

definition resolveAlias ::
  "path_module \<Rightarrow> fs_module \<Rightarrow> TextDocument \<Rightarrow> string \<Rightarrow> aliases \<Rightarrow> state \<Rightarrow>
     (error + string option) \<times> state" where
  "resolveAlias P F document importPath als s =
     (let aliasKey = find_aliasKey importPath als in
      if \<not> truthy aliasKey
      then (let r = tryWithExtensions P F document importPath s in (Inr (fst r), snd r))
      else
        let relativePath = replace importPath (the aliasKey) '''' in
        case obj_get als (the aliasKey) of
          None \<Rightarrow> (Inl TypeError, s)
        | Some basePaths \<Rightarrow> try_basePaths P F relativePath basePaths s)"

subsection \<open>The import pattern\<close>

text \<open>
  \<^verbatim>\<open>/@(?:use|import)\s*['"]([^'"]+)['"]/g\<close>. The class \<^verbatim>\<open>\s\<close> holds, below 256, the
  code units 9 to 13, 32 and 160.
\<close>

definition is_space :: "char \<Rightarrow> bool" where
  "is_space c = ((of_char c :: nat) \<in> {9, 10, 11, 12, 13, 32, 160})"

definition is_quote :: "char \<Rightarrow> bool" where
  "is_quote c = (c = CHR 0x27 \<or> c = CHR 0x22)"

text \<open>
  A match that starts at the first character: the matched text and the first group.
  Every quantifier is followed by a character outside its class, so the greedy match is
  the only one.
\<close>

definition regex_at :: "string \<Rightarrow> (string \<times> string) option" where
  "regex_at cs =
     (case cs of
        [] \<Rightarrow> None
      | c # r \<Rightarrow>
          if c \<noteq> CHR ''@'' then None
          else if \<not> (startsWith r ''use'' \<or> startsWith r ''import'') then None
          else
            let k = (if startsWith r ''use'' then 3 else 6);
                r1 = drop k r;
                ws = takeWhile is_space r1;
                r2 = dropWhile is_space r1
            in (case r2 of
                  [] \<Rightarrow> None
                | q # r3 \<Rightarrow>
                    if \<not> is_quote q then None
                    else
                      (let g = takeWhile (\<lambda>x. \<not> is_quote x) r3;
                           r4 = dropWhile (\<lambda>x. \<not> is_quote x) r3
                       in if g = [] \<or> r4 = [] then None
                          else Some (take (1 + k + length ws + 1 + length g + 1) cs, g))))"

text \<open>The leftmost match in \<open>cs\<close>, whose first character has the index \<open>i\<close>.\<close>

fun regex_search :: "string \<Rightarrow> nat \<Rightarrow> (nat \<times> string \<times> string) option" where
  "regex_search [] i = None"
| "regex_search (c # cs) i =
     (case regex_at (c # cs) of
        Some m \<Rightarrow> Some (i, m)
      | None \<Rightarrow> regex_search cs (Suc i))"

text \<open>
  \<^verbatim>\<open>importRegex.exec(text)\<close> with \<^verbatim>\<open>lastIndex = li\<close>: the index of the match, the matched
  text and the group. The caller stores the new \<^verbatim>\<open>lastIndex\<close>: the end of the match, or
  0 when there is none.
\<close>

definition regex_exec :: "string \<Rightarrow> nat \<Rightarrow> (nat \<times> string \<times> string) option" where
  "regex_exec text li = regex_search (drop li text) li"

lemma regex_at_length:
  "regex_at cs = Some (m0, m1) \<Longrightarrow> 0 < length m0 \<and> length m0 \<le> length cs"
  by (cases cs) (auto simp: regex_at_def Let_def split: if_splits list.splits)

lemma regex_search_bounds:
  "regex_search cs i = Some (idx, m0, m1) \<Longrightarrow>
     i \<le> idx \<and> 0 < length m0 \<and> idx + length m0 \<le> i + length cs"
proof (induction cs arbitrary: i)
  case Nil
  then show ?case by simp
next
  case (Cons c cs)
  show ?case
  proof (cases "regex_at (c # cs)")
    case None
    with Cons.prems have "regex_search cs (Suc i) = Some (idx, m0, m1)" by simp
    from Cons.IH [OF this] show ?thesis by simp
  next
    case (Some m)
    with Cons.prems have "idx = i" and "regex_at (c # cs) = Some (m0, m1)" by auto
    with regex_at_length [of "c # cs" m0 m1] show ?thesis by simp
  qed
qed

lemma regex_exec_bounds:
  "regex_exec text li = Some (idx, m0, m1) \<Longrightarrow>
     li \<le> idx \<and> li < idx + length m0 \<and> idx + length m0 \<le> length text"
proof -
  assume a: "regex_exec text li = Some (idx, m0, m1)"
  then have ne: "drop li text \<noteq> []" by (auto simp: regex_exec_def)
  then have "li < length text" by simp
  with regex_search_bounds [of "drop li text" li idx m0 m1] a show ?thesis
    by (cases m0) (simp_all add: regex_exec_def)
qed

subsection \<open>provideDocumentLinks\<close>

text \<open>
  The \<^verbatim>\<open>while\<close> loop of \<^verbatim>\<open>provideDocumentLinks\<close>. The position where the next search
  starts is the \<^verbatim>\<open>lastIndex\<close> of the state. When \<^verbatim>\<open>resolveAlias\<close> throws, the loop is left
  with \<^verbatim>\<open>lastIndex\<close> at the end of the current match.
\<close>

function scan_imports ::
  "path_module \<Rightarrow> fs_module \<Rightarrow> TextDocument \<Rightarrow> aliases \<Rightarrow> string \<Rightarrow> DocumentLink list \<Rightarrow>
     state \<Rightarrow> (error + DocumentLink list) \<times> state" where
  "scan_imports P F document als text links s =
     (case regex_exec text (lastIndex s) of
        None \<Rightarrow> (Inr links, s\<lparr>lastIndex := 0\<rparr>)
      | Some (index, m0, alias) \<Rightarrow>
          (let s0 = s\<lparr>lastIndex := index + length m0\<rparr>;
               startPos = positionAt document (int index + indexOf m0 alias);
               endPos = translate startPos 0 (length alias);
               range = \<lparr>range_start = startPos, range_end = endPos\<rparr>
           in (case resolveAlias P F document alias als s0 of
                 (Inl e, s1) \<Rightarrow> (Inl e, s1)
               | (Inr None, s1) \<Rightarrow> scan_imports P F document als text links s1
               | (Inr (Some resolvedPath), s1) \<Rightarrow>
                   if resolvedPath = [] then scan_imports P F document als text links s1
                   else scan_imports P F document als text
                          (links @ [\<lparr>link_range = range, link_target = resolvedPath\<rparr>])
                          s1)))"
  by pat_completeness auto

text \<open>The resolver changes nothing of the state but the sequence of calls.\<close>

definition calls_only :: "state \<Rightarrow> state \<Rightarrow> bool" where
  "calls_only s s' = (\<exists>cs. s' = s\<lparr>calls := calls s @ cs\<rparr>)"

lemma calls_only_refl: "calls_only s s"
  by (auto simp: calls_only_def intro: exI [of _ "[]"])

lemma calls_only_trans: "calls_only s s1 \<Longrightarrow> calls_only s1 s2 \<Longrightarrow> calls_only s s2"
  by (auto simp: calls_only_def)

lemma calls_only_called: "calls_only s (called c s)"
  by (auto simp: calls_only_def called_def)

lemma calls_only_fileExists: "calls_only s (snd (fileExists F p s))"
  by (simp add: fileExists_def calls_only_called)

lemma calls_only_fields:
  "calls_only s s' \<Longrightarrow>
     lastIndex s' = lastIndex s \<and> configCache s' = configCache s \<and>
     configPathCache s' = configPathCache s \<and> documentLinkCache s' = documentLinkCache s"
  by (auto simp: calls_only_def)

lemma calls_only_try_extensions: "calls_only s (snd (try_extensions F p exts s))"
proof (induction exts arbitrary: s)
  case Nil
  show ?case by (simp add: calls_only_refl)
next
  case (Cons ext exts)
  show ?case
    using calls_only_fileExists [of s F "p @ ext"] Cons.IH [of "snd (fileExists F (p @ ext) s)"]
    by (auto simp: Let_def intro: calls_only_trans)
qed

lemma calls_only_try_basePaths: "calls_only s (snd (try_basePaths P F rel bs s))"
proof (induction bs arbitrary: s)
  case Nil
  show ?case by (simp add: calls_only_refl)
next
  case (Cons b bs)
  let ?p = "path_join P b rel"
  let ?s0 = "snd (fileExists F ?p s)"
  let ?s1 = "called (Stat ?p) ?s0"
  let ?si = "snd (fileExists F (path_join P ?p ''index.scss'') ?s1)"
  let ?sm = "snd (fileExists F (path_join P ?p ''main.scss'') ?si)"
  have a0: "calls_only s ?s0" by (rule calls_only_fileExists)
  have a1: "calls_only s ?s1" using a0 calls_only_called by (rule calls_only_trans)
  have ai: "calls_only s ?si" using a1 calls_only_fileExists by (rule calls_only_trans)
  have am: "calls_only s ?sm" using ai calls_only_fileExists by (rule calls_only_trans)
  have ih: "calls_only s (snd (try_basePaths P F rel bs ?s0))"
    using a0 Cons.IH by (rule calls_only_trans)
  show ?case
    using a1 ai am ih by (simp add: Let_def split: option.splits)
qed

lemma calls_only_resolveAlias: "calls_only s (snd (resolveAlias P F document imp als s))"
  by (simp add: resolveAlias_def tryWithExtensions_def Let_def calls_only_refl
      calls_only_try_extensions calls_only_try_basePaths split: option.splits)

lemma lastIndex_resolveAlias:
  "(r, s') = resolveAlias P F document imp als s \<Longrightarrow> lastIndex s' = lastIndex s"
  using calls_only_resolveAlias [of s P F document imp als]
  by (metis calls_only_fields snd_conv)

termination scan_imports
  apply (relation
      "measure (\<lambda>(P, F, document, als, text, links, s). Suc (length text) - lastIndex s)")
   apply simp
  apply (auto dest!: regex_exec_bounds lastIndex_resolveAlias)
  done

declare scan_imports.simps [simp del]

text \<open>
  The provider. An array, empty or not, is truthy, so a cached sequence is always
  returned. The result is \<open>None\<close> when \<^verbatim>\<open>findNearestConfig\<close> does not return.
\<close>

definition provideDocumentLinks ::
  "path_module \<Rightarrow> fs_module \<Rightarrow> (string \<Rightarrow> json option) \<Rightarrow> TextDocument \<Rightarrow> state \<Rightarrow>
     ((error + DocumentLink list) \<times> state) option" where
  "provideDocumentLinks P F J document s =
     (case documentLinkCache s (fileName document) of
        Some links \<Rightarrow> Some (Inr links, s)
      | None \<Rightarrow>
          (case findNearestConfig P F (path_dirname P (fileName document)) s of
             None \<Rightarrow> None
           | Some (cfg, s1) \<Rightarrow>
               if \<not> truthy cfg then Some (Inr [], s1)
               else
                 (case getTsConfigAliases P F J (the cfg) s1 of
                    (Inl e, s2) \<Rightarrow> Some (Inl e, s2)
                  | (Inr als, s2) \<Rightarrow>
                      (case scan_imports P F document als (getText document) [] s2 of
                         (Inl e, s3) \<Rightarrow> Some (Inl e, s3)
                       | (Inr links, s3) \<Rightarrow>
                           Some (Inr links,
                             s3\<lparr>documentLinkCache :=
                                (documentLinkCache s3)(fileName document \<mapsto> links)\<rparr>)))))"

text \<open>The listener of \<^verbatim>\<open>onDidChangeTextDocument\<close>.\<close>

definition onDidChangeTextDocument :: "TextDocument \<Rightarrow> state \<Rightarrow> state" where
  "onDidChangeTextDocument document s =
     s\<lparr>documentLinkCache := (documentLinkCache s)(fileName document := None)\<rparr>"

text \<open>The state of the module when it is loaded.\<close>

definition init :: state where
  "init = \<lparr>configCache = Map.empty, configPathCache = Map.empty,
            documentLinkCache = Map.empty, lastIndex = 0, calls = []\<rparr>"

subsection \<open>The POSIX implementation of the path module\<close>

text \<open>
  Node's \<^verbatim>\<open>path.posix\<close>, for the functions the extension calls, with the working
  directory of the process as a parameter. It is the instance at which the theorems below
  are applied to concrete inputs.
\<close>

fun split_slash :: "string \<Rightarrow> string list" where
  "split_slash [] = [[]]"
| "split_slash (c # cs) =
     (if c = CHR ''/'' then [] # split_slash cs
      else (case split_slash cs of
              [] \<Rightarrow> [[c]]
            | x # xs \<Rightarrow> (c # x) # xs))"

fun join_slash :: "string list \<Rightarrow> string" where
  "join_slash [] = []"
| "join_slash [x] = x"
| "join_slash (x # y # ys) = x @ ''/'' @ join_slash (y # ys)"

text \<open>\<^verbatim>\<open>normalizeString\<close>: the segments kept so far are in \<open>res\<close>, the last one first.\<close>

fun normalize_segments :: "bool \<Rightarrow> string list \<Rightarrow> string list \<Rightarrow> string list" where
  "normalize_segments allowAboveRoot [] res = rev res"
| "normalize_segments allowAboveRoot (seg # segs) res =
     (if seg = [] \<or> seg = ''.'' then normalize_segments allowAboveRoot segs res
      else if seg = ''..'' then
        (if res \<noteq> [] \<and> hd res \<noteq> ''..'' then normalize_segments allowAboveRoot segs (tl res)
         else if allowAboveRoot then normalize_segments allowAboveRoot segs (''..'' # res)
         else normalize_segments allowAboveRoot segs res)
      else normalize_segments allowAboveRoot segs (seg # res))"

definition normalizeString :: "string \<Rightarrow> bool \<Rightarrow> string" where
  "normalizeString p allowAboveRoot =
     join_slash (normalize_segments allowAboveRoot (split_slash p) [])"

definition isAbsolute :: "string \<Rightarrow> bool" where
  "isAbsolute p = (p \<noteq> [] \<and> hd p = CHR ''/'')"

definition posix_normalize :: "string \<Rightarrow> string" where
  "posix_normalize p =
     (if p = [] then ''.''
      else
        let trailingSeparator = (last p = CHR ''/'');
            q = normalizeString p (\<not> isAbsolute p)
        in if q = [] then (if isAbsolute p then ''/'' else if trailingSeparator then ''./'' else ''.'')
           else (if isAbsolute p then ''/'' else []) @ q @ (if trailingSeparator then ''/'' else []))"

definition posix_join :: "string \<Rightarrow> string \<Rightarrow> string" where
  "posix_join a b =
     (let joined = join_slash (filter (\<lambda>x. x \<noteq> []) [a, b])
      in if joined = [] then ''.'' else posix_normalize joined)"

definition posix_dirname :: "string \<Rightarrow> string" where
  "posix_dirname p =
     (if p = [] then ''.''
      else
        let r1 = dropWhile (\<lambda>c. c = CHR ''/'') (rev (tl p));
            r2 = dropWhile (\<lambda>c. c \<noteq> CHR ''/'') r1
        in if r2 = [] then (if isAbsolute p then ''/'' else ''.'')
           else if isAbsolute p \<and> tl r2 = [] then ''//''
           else hd p # rev (tl r2))"

definition posix_root :: "string \<Rightarrow> string" where
  "posix_root p = (if isAbsolute p then ''/'' else [])"

definition posix_resolve :: "string \<Rightarrow> string \<Rightarrow> string \<Rightarrow> string" where
  "posix_resolve cwd a b =
     (let used = (if isAbsolute b then [b] else if isAbsolute a then [a, b] else [cwd, a, b]);
          resolvedAbsolute = (isAbsolute b \<or> isAbsolute a \<or> isAbsolute cwd);
          resolvedPath = concat (map (\<lambda>x. x @ ''/'') (filter (\<lambda>x. x \<noteq> []) used));
          q = normalizeString resolvedPath (\<not> resolvedAbsolute)
      in if resolvedAbsolute then CHR ''/'' # q
         else if q \<noteq> [] then q else ''.'')"

definition posix :: "string \<Rightarrow> path_module" where
  "posix cwd = \<lparr>path_join = posix_join, path_dirname = posix_dirname,
                 path_root = posix_root, path_resolve = posix_resolve cwd\<rparr>"

subsection \<open>Notions used in the statements\<close>


text \<open>The two existence checks the walk makes in a directory.\<close>

definition probes :: "path_module \<Rightarrow> string \<Rightarrow> call list" where
  "probes P c =
     [Access (path_join P c ''tsconfig.json''), Access (path_join P c ''jsconfig.json'')]"

text \<open>
  The calls from \<open>s\<close> to \<open>s'\<close> are probes in directories that are not their own root.
\<close>

definition non_root_probes :: "path_module \<Rightarrow> state \<Rightarrow> state \<Rightarrow> bool" where
  "non_root_probes P s s' =
     (\<exists>cs. calls s' = calls s @ cs \<and>
        list_all (\<lambda>c. \<exists>dir. dir \<noteq> path_root P dir \<and> c \<in> set (probes P dir)) cs)"

text \<open>
  Normalised absolute POSIX paths: \<open>abs_of [s1, ..., sk]\<close> is \<^verbatim>\<open>/s1/.../sk\<close>, and \<^verbatim>\<open>/\<close> for
  no segment; a plain segment is not empty, has no slash and is neither \<^verbatim>\<open>.\<close> nor \<^verbatim>\<open>..\<close>.
\<close>

definition plain :: "string \<Rightarrow> bool" where
  "plain seg = (seg \<noteq> [] \<and> CHR ''/'' \<notin> set seg \<and> seg \<noteq> ''.'' \<and> seg \<noteq> ''..'')"

definition abs_of :: "string list \<Rightarrow> string" where
  "abs_of segs = (if segs = [] then ''/'' else concat (map (\<lambda>seg. CHR ''/'' # seg) segs))"


text \<open>What the walk leaves unchanged: it only records calls and writes its own cache.\<close>

definition walk_frame :: "state \<Rightarrow> state \<Rightarrow> bool" where
  "walk_frame s s' =
     (configCache s' = configCache s \<and> documentLinkCache s' = documentLinkCache s \<and>
      lastIndex s' = lastIndex s \<and> (\<exists>cs. calls s' = calls s @ cs))"

text \<open>
  What a walk that ends without a configuration file leaves in its cache: no new entry
  that is a path, and none for the directory where it started.
\<close>

definition falsy_walk :: "path_module \<Rightarrow> string \<Rightarrow> state \<Rightarrow> string option \<times> state \<Rightarrow> bool" where
  "falsy_walk P d s y =
     (\<not> truthy (fst y) \<longrightarrow>
       (\<forall>k. truthy (lookup (configPathCache (snd y)) k) \<longrightarrow>
            truthy (lookup (configPathCache s) k)) \<and>
       (d \<noteq> path_root P d \<longrightarrow> \<not> truthy (lookup (configPathCache (snd y)) d)))"

text \<open>What the scan of the imports and the build of the alias table leave unchanged.\<close>

definition scan_frame :: "state \<Rightarrow> state \<Rightarrow> bool" where
  "scan_frame s s' =
     (configCache s' = configCache s \<and> configPathCache s' = configPathCache s \<and>
      documentLinkCache s' = documentLinkCache s \<and> prefix (calls s) (calls s'))"

definition build_frame :: "state \<Rightarrow> state \<Rightarrow> bool" where
  "build_frame s s' =
     (configPathCache s' = configPathCache s \<and> documentLinkCache s' = documentLinkCache s \<and>
      lastIndex s' = lastIndex s \<and> prefix (calls s) (calls s'))"

text \<open>
  The words of the specification for the normalisation of an alias declaration, to be
  compared with what \<open>build_aliases\<close> does: "strip a trailing wildcard marker \<^verbatim>\<open>/*\<close> from
  both the alias key and each of its target path patterns, resolve each resulting
  relative target against the configuration file's own directory".
\<close>

definition spec_strip_trailing_wildcard :: "string \<Rightarrow> string" where
  "spec_strip_trailing_wildcard p = (if suffix ''/*'' p then take (length p - 2) p else p)"




subsection \<open>Concrete file systems and documents\<close>


text \<open>A document of one line, and a file system where nothing is readable.\<close>

definition single_line :: "int \<Rightarrow> Position" where
  "single_line i = \<lparr>line = 0, character = nat i\<rparr>"

definition fs_empty :: fs_module where
  "fs_empty = \<lparr>fs_access = (\<lambda>p. False), fs_stat = (\<lambda>p. None), fs_readFile = (\<lambda>p. None)\<rparr>"

definition doc_x :: TextDocument where
  \<open>doc_x = \<lparr>fileName = ''/a/x.scss'', getText = ''@use "./b";'', positionAt = single_line\<rparr>\<close>

text \<open>The state after one walk from \<^verbatim>\<open>/a\<close> that found nothing.\<close>

definition walked_a :: state where
  "walked_a = init\<lparr>configPathCache := [''/a'' \<mapsto> None],
       calls := [Access ''/a/tsconfig.json'', Access ''/a/jsconfig.json'']\<rparr>"

definition walked_a_twice :: state where
  "walked_a_twice = walked_a\<lparr>calls := calls walked_a @
       [Access ''/a/tsconfig.json'', Access ''/a/jsconfig.json'']\<rparr>"

text \<open>\<^verbatim>\<open>JSON.parse\<close> on the texts of the configuration files used below.\<close>

definition cfg_text :: string where
  \<open>cfg_text = ''{"compilerOptions":{"paths":{"@a/*":["src/*"]}}}''\<close>

definition cfg_json :: json where
  "cfg_json = JObj [(''compilerOptions'',
       JObj [(''paths'', JObj [(''@a/*'', JArr [JStr ''src/*''])])])]"

definition cfg_text_mid :: string where
  \<open>cfg_text_mid = ''{"compilerOptions":{"paths":{"@a/*/b":["src/*/b"]}}}''\<close>

definition cfg_json_mid :: json where
  "cfg_json_mid = JObj [(''compilerOptions'',
       JObj [(''paths'', JObj [(''@a/*/b'', JArr [JStr ''src/*/b''])])])]"

definition cfg_text_slash :: string where
  \<open>cfg_text_slash = ''{"compilerOptions":{"paths":{"/*":["src/btn/*"],"@a/*":["src/*"]}}}''\<close>

definition cfg_json_slash :: json where
  "cfg_json_slash = JObj [(''compilerOptions'',
       JObj [(''paths'', JObj [(''/*'', JArr [JStr ''src/btn/*'']),
                               (''@a/*'', JArr [JStr ''src/*''])])])]"

definition cfg_text_str :: string where
  \<open>cfg_text_str = ''{"compilerOptions":{"paths":{"@a/*":["src/*"],"@b":"src"}}}''\<close>

definition cfg_json_str :: json where
  "cfg_json_str = JObj [(''compilerOptions'',
       JObj [(''paths'', JObj [(''@a/*'', JArr [JStr ''src/*'']), (''@b'', JStr ''src'')])])]"

definition JSON_parse_of :: "string \<Rightarrow> json option" where
  "JSON_parse_of tx =
     (if tx = cfg_text then Some cfg_json
      else if tx = cfg_text_mid then Some cfg_json_mid
      else if tx = cfg_text_slash then Some cfg_json_slash
      else if tx = cfg_text_str then Some cfg_json_str
      else None)"

text \<open>
  A project in \<^verbatim>\<open>/p\<close>, all of it readable: the configuration file \<^verbatim>\<open>/p/tsconfig.json\<close>
  with the given text, the style sheet \<^verbatim>\<open>/p/src/main.scss\<close>, the directories
  \<^verbatim>\<open>/p/src/btn\<close> (with \<^verbatim>\<open>index.scss\<close> and \<^verbatim>\<open>main.scss\<close>) and \<^verbatim>\<open>/p/src/foo\<close>, and the
  files \<^verbatim>\<open>/p/src/foo.scss\<close>, \<^verbatim>\<open>/p/src/foo.css\<close> and \<^verbatim>\<open>/p/src/bc\<close>.
\<close>

definition file_stats :: Stats where
  "file_stats = \<lparr>isFile = True, isDirectory = False, mtimeMs = 1000\<rparr>"

definition dir_stats :: Stats where
  "dir_stats = \<lparr>isFile = False, isDirectory = True, mtimeMs = 1000\<rparr>"

definition proj_entries :: "(string \<times> Stats) list" where
  "proj_entries =
     [(''/p'', dir_stats),
      (''/p/tsconfig.json'', file_stats),
      (''/p/src'', dir_stats),
      (''/p/src/main.scss'', file_stats),
      (''/p/src/btn'', dir_stats),
      (''/p/src/btn/index.scss'', file_stats),
      (''/p/src/btn/main.scss'', file_stats),
      (''/p/src/foo'', dir_stats),
      (''/p/src/foo.scss'', file_stats),
      (''/p/src/foo.css'', file_stats),
      (''/p/src/bc'', file_stats)]"

definition fs_proj :: "string \<Rightarrow> fs_module" where
  "fs_proj configContent =
     \<lparr>fs_access = (\<lambda>p. p \<in> set (map fst proj_entries)),
      fs_stat = map_of proj_entries,
      fs_readFile = [''/p/tsconfig.json'' \<mapsto> configContent]\<rparr>"

definition main_text :: string where
  \<open>main_text = ''@use "@a/btn"; @import "./bc";''\<close>

definition doc_main :: TextDocument where
  "doc_main = \<lparr>fileName = ''/p/src/main.scss'', getText = main_text, positionAt = single_line\<rparr>"

definition als_main :: aliases where
  "als_main = [(''@a'', [''/p/src''])]"

text \<open>
  The alias table of the declarations \<^verbatim>\<open>"/*": ["src/btn/*"], "@a/*": ["src/*"]\<close>: the first
  key is the empty string.
\<close>

definition als_slash :: aliases where
  "als_slash = [('''', [''/p/src/btn'']), (''@a'', [''/p/src''])]"

definition links_main :: "DocumentLink list" where
  "links_main =
     [\<lparr>link_range = \<lparr>range_start = \<lparr>line = 0, character = 6\<rparr>,
                      range_end = \<lparr>line = 0, character = 12\<rparr>\<rparr>,
       link_target = ''/p/src/btn/index.scss''\<rparr>,
      \<lparr>link_range = \<lparr>range_start = \<lparr>line = 0, character = 24\<rparr>,
                      range_end = \<lparr>line = 0, character = 28\<rparr>\<rparr>,
       link_target = ''/p/src/bc''\<rparr>]"

text \<open>States whose alias cache holds an entry for \<^verbatim>\<open>/p/tsconfig.json\<close>.\<close>

definition cached_at :: "rat \<Rightarrow> aliases \<Rightarrow> state" where
  "cached_at t als =
     init\<lparr>configCache := [''/p/tsconfig.json'' \<mapsto>
        \<lparr>aliases = als, lastModified = t, configPath = ''/p/tsconfig.json''\<rparr>]\<rparr>"

section \<open>Properties\<close>

subsection \<open>The walk\<close>

lemma walk_frame_refl: "walk_frame s s"
  by (simp add: walk_frame_def)

lemma walk_frame_trans: "walk_frame s s1 \<Longrightarrow> walk_frame s1 s2 \<Longrightarrow> walk_frame s s2"
  by (auto simp: walk_frame_def)

lemma walk_frame_step:
  "walk_frame s ((snd (fileExists F p s))\<lparr>configPathCache := m\<rparr>)"
  by (simp add: walk_frame_def fileExists_def called_def)

lemma walk_frame_step2:
  "walk_frame s ((snd (fileExists F q (snd (fileExists F p s))))\<lparr>configPathCache := m\<rparr>)"
  by (simp add: walk_frame_def fileExists_def called_def)

lemma findNearestConfig_frame:
  "findNearestConfig P F d s = Some y \<Longrightarrow> walk_frame s (snd y)"
proof (erule findNearestConfig.raw_induct [rotated,
      where Pa = "\<lambda>x y. walk_frame (snd x) (snd y)", simplified], goal_cases)
  case (1 f P F currentDir s y)
  have ih: "\<And>c b y. f P F c b = Some y \<Longrightarrow> walk_frame b (snd y)"
    using 1(1) by blast
  show ?case
    using 1(2)
    by (auto simp: Let_def walk_frame_refl walk_frame_step walk_frame_step2
        split: if_splits dest!: ih intro: walk_frame_trans [OF walk_frame_step2])
qed

lemma non_root_probes_refl: "non_root_probes P s s"
  by (simp add: non_root_probes_def)

lemma non_root_probes_trans:
  "non_root_probes P s s1 \<Longrightarrow> non_root_probes P s1 s2 \<Longrightarrow> non_root_probes P s s2"
  by (auto simp: non_root_probes_def)

lemma non_root_probes_step:
  "d \<noteq> path_root P d \<Longrightarrow>
     non_root_probes P s
       ((snd (fileExists F (path_join P d ''tsconfig.json'') s))\<lparr>configPathCache := m\<rparr>)"
  by (auto simp: non_root_probes_def fileExists_def called_def probes_def)

lemma non_root_probes_step2:
  "d \<noteq> path_root P d \<Longrightarrow>
     non_root_probes P s
       ((snd (fileExists F (path_join P d ''jsconfig.json'')
           (snd (fileExists F (path_join P d ''tsconfig.json'') s))))\<lparr>configPathCache := m\<rparr>)"
  by (auto simp: non_root_probes_def fileExists_def called_def probes_def)

lemma findNearestConfig_non_root_probes:
  "findNearestConfig P F d s = Some y \<Longrightarrow> non_root_probes P s (snd y)"
proof (erule findNearestConfig.raw_induct [rotated,
      where Pa = "\<lambda>x y. non_root_probes (fst (fst (fst x))) (snd x) (snd y)", simplified],
    goal_cases)
  case (1 f P F currentDir s y)
  have ih: "\<And>c b y. f P F c b = Some y \<Longrightarrow> non_root_probes P b (snd y)"
    using 1(1) by blast
  show ?case
  proof (cases "currentDir = path_root P currentDir")
    case True
    with 1(2) show ?thesis by (auto simp: non_root_probes_refl)
  next
    case False
    note s1 = non_root_probes_step [OF False] and s2 = non_root_probes_step2 [OF False]
    from 1(2) False show ?thesis
      by (auto simp: Let_def non_root_probes_refl s1 s2
          split: if_splits dest!: ih intro: non_root_probes_trans [OF s2])
  qed
qed



text \<open>One turn of the loop in a directory where nothing is cached and nothing is found.\<close>

lemma findNearestConfig_up:
  assumes "d \<noteq> path_root P d"
    and "\<not> truthy (lookup (configPathCache s) d)"
    and "\<not> fs_access F (path_join P d ''tsconfig.json'')"
    and "\<not> fs_access F (path_join P d ''jsconfig.json'')"
  shows "findNearestConfig P F d s =
     findNearestConfig P F (path_dirname P d)
       (s\<lparr>calls := calls s @ probes P d, configPathCache := (configPathCache s)(d \<mapsto> None)\<rparr>)"
  using assms
  by (subst findNearestConfig.simps) (simp add: Let_def fileExists_def called_def probes_def)

lemma findNearestConfig_at_root:
  "d = path_root P d \<Longrightarrow> findNearestConfig P F d s = Some (None, s)"
  by (subst findNearestConfig.simps) simp


lemma findNearestConfig_hit:
  "d \<noteq> path_root P d \<Longrightarrow> truthy (lookup (configPathCache s) d) \<Longrightarrow>
     findNearestConfig P F d s = Some (lookup (configPathCache s) d, s)"
  by (subst findNearestConfig.simps) simp

text \<open>A turn of the loop that is not answered from the cache starts with a probe.\<close>

lemma findNearestConfig_miss_probes:
  assumes "d \<noteq> path_root P d" and "\<not> truthy (lookup (configPathCache s) d)"
    and "findNearestConfig P F d s = Some (r, s')"
  shows "\<exists>cs. calls s' = calls s @ Access (path_join P d ''tsconfig.json'') # cs"
proof -
  let ?s1 = "called (Access (path_join P d ''tsconfig.json'')) s"
  let ?s2 = "called (Access (path_join P d ''jsconfig.json'')) ?s1"
  have c1: "calls ?s1 = calls s @ [Access (path_join P d ''tsconfig.json'')]"
    by (simp add: called_def)
  have c2: "calls ?s2 = calls s @ [Access (path_join P d ''tsconfig.json''),
      Access (path_join P d ''jsconfig.json'')]"
    by (simp add: called_def)
  from assms have
    "(fs_access F (path_join P d ''tsconfig.json'') \<and> calls s' = calls ?s1) \<or>
     (fs_access F (path_join P d ''jsconfig.json'') \<and> calls s' = calls ?s2) \<or>
     findNearestConfig P F (path_dirname P d)
        (?s2\<lparr>configPathCache := (configPathCache ?s2)(d \<mapsto> None)\<rparr>) = Some (r, s')"
    by (subst (asm) findNearestConfig.simps)
       (auto simp: Let_def fileExists_def split: if_splits)
  then show ?thesis
  proof (elim disjE conjE)
    assume "calls s' = calls ?s1"
    with c1 show ?thesis by simp
  next
    assume "calls s' = calls ?s2"
    with c2 show ?thesis by simp
  next
    assume "findNearestConfig P F (path_dirname P d)
        (?s2\<lparr>configPathCache := (configPathCache ?s2)(d \<mapsto> None)\<rparr>) = Some (r, s')"
    from findNearestConfig_frame [OF this] obtain cs where "calls s' = calls ?s2 @ cs"
      by (auto simp: walk_frame_def)
    with c2 show ?thesis by simp
  qed
qed

lemma findNearestConfig_falsy:
  "findNearestConfig P F d s = Some y \<Longrightarrow> falsy_walk P d s y"
proof (erule findNearestConfig.raw_induct [rotated,
      where Pa = "\<lambda>x y. falsy_walk (fst (fst (fst x))) (snd (fst x)) (snd x) y", simplified],
    goal_cases)
  case (1 f P F currentDir s y)
  have ih: "\<And>c b y. f P F c b = Some y \<Longrightarrow> falsy_walk P c b y"
    using 1(1) by blast
  show ?case
  proof (cases "currentDir = path_root P currentDir \<or>
      truthy (lookup (configPathCache s) currentDir)")
    case True
    with 1(2) show ?thesis
      by (auto simp: falsy_walk_def split: if_splits)
  next
    case False
    let ?ts = "path_join P currentDir ''tsconfig.json''"
    let ?js = "path_join P currentDir ''jsconfig.json''"
    let ?s1 = "snd (fileExists F ?ts s)"
    let ?s2 = "snd (fileExists F ?js ?s1)"
    have cc: "configPathCache ?s1 = configPathCache s" "configPathCache ?s2 = configPathCache s"
      by (simp_all add: fileExists_def called_def)
    show ?thesis
    proof (cases "fs_access F ?ts")
      case True
      with False 1(2) have "y = (Some ?ts,
          ?s1\<lparr>configPathCache := (configPathCache ?s1)(currentDir \<mapsto> Some ?ts)\<rparr>)"
        by (simp add: Let_def fileExists_def)
      then show ?thesis using cc by (auto simp: falsy_walk_def)
    next
      case nts: False
      show ?thesis
      proof (cases "fs_access F ?js")
        case True
        with False nts 1(2) have "y = (Some ?js,
            ?s2\<lparr>configPathCache := (configPathCache ?s2)(currentDir \<mapsto> Some ?js)\<rparr>)"
          by (simp add: Let_def fileExists_def)
        then show ?thesis using cc by (auto simp: falsy_walk_def)
      next
        case njs: False
        with False nts 1(2) have "f P F (path_dirname P currentDir)
            (?s2\<lparr>configPathCache := (configPathCache ?s2)(currentDir \<mapsto> None)\<rparr>) = Some y"
          by (simp add: Let_def fileExists_def)
        from ih [OF this] show ?thesis using cc
          by (auto simp: falsy_walk_def split: if_splits)
      qed
    qed
  qed
qed

subsection \<open>The build of the alias table and the scan\<close>

lemma scan_frame_calls_only: "calls_only s s' \<Longrightarrow> scan_frame s s'"
  by (auto simp: calls_only_def scan_frame_def)

lemma scan_frame_trans: "scan_frame s s1 \<Longrightarrow> scan_frame s1 s2 \<Longrightarrow> scan_frame s s2"
  by (auto simp: scan_frame_def)

lemma scan_frame_lastIndex: "scan_frame (s\<lparr>lastIndex := i\<rparr>) s' \<Longrightarrow> scan_frame s s'"
  by (auto simp: scan_frame_def)

lemma scan_imports_frame: "scan_frame s (snd (scan_imports P F d als tx links s))"
proof (induction P F d als tx links s rule: scan_imports.induct)
  case (1 P F document als tx links s)
  show ?case
  proof (cases "regex_exec tx (lastIndex s)")
    case None
    then show ?thesis
      by (subst scan_imports.simps) (simp add: scan_frame_def)
  next
    case (Some m)
    obtain index m0 spec where m: "m = (index, m0, spec)" by (cases m) auto
    let ?s0 = "s\<lparr>lastIndex := index + length m0\<rparr>"
    obtain r s1 where r: "resolveAlias P F document spec als ?s0 = (r, s1)"
      by (cases "resolveAlias P F document spec als ?s0") auto
    have "calls_only ?s0 s1"
      using calls_only_resolveAlias [of ?s0 P F document spec als] r by simp
    then have f1: "scan_frame s s1"
      by (auto intro: scan_frame_lastIndex scan_frame_calls_only)
    note ih = "1.IH" [OF Some m [symmetric] refl refl refl refl refl r [symmetric]]
    show ?thesis
      using Some m r f1 ih
      by (subst scan_imports.simps)
         (auto simp: Let_def split: sum.splits option.splits intro: scan_frame_trans)
  qed
qed

lemma getTsConfigAliases_frame: "build_frame s (snd (getTsConfigAliases P F J cfg s))"
  by (simp add: getTsConfigAliases_def build_frame_def called_def Let_def
      split: option.splits sum.splits)

subsection \<open>The provider\<close>

text \<open>A call that is not answered from the link cache runs the walk first.\<close>

lemma provideDocumentLinks_miss:
  assumes "documentLinkCache s (fileName d) = None"
    and "provideDocumentLinks P F J d s = Some (r, s2)"
  shows "\<exists>cfg s1. findNearestConfig P F (path_dirname P (fileName d)) s = Some (cfg, s1) \<and>
           prefix (calls s1) (calls s2)"
proof -
  from assms obtain cfg s1 where
    w: "findNearestConfig P F (path_dirname P (fileName d)) s = Some (cfg, s1)"
    by (auto simp: provideDocumentLinks_def split: option.splits)
  show ?thesis
  proof (cases "truthy cfg")
    case False
    with assms w have "s2 = s1" by (simp add: provideDocumentLinks_def)
    with w show ?thesis by simp
  next
    case True
    let ?b = "getTsConfigAliases P F J (the cfg) s1"
    have pb: "prefix (calls s1) (calls (snd ?b))"
      using getTsConfigAliases_frame [of s1 P F J "the cfg"] by (simp add: build_frame_def)
    show ?thesis
    proof (cases "fst ?b")
      case (Inl e)
      with assms w True have "s2 = snd ?b"
        by (auto simp: provideDocumentLinks_def split: prod.splits sum.splits)
      with w pb show ?thesis by simp
    next
      case (Inr als)
      let ?c = "scan_imports P F d als (getText d) [] (snd ?b)"
      have pc: "prefix (calls (snd ?b)) (calls (snd ?c))"
        using scan_imports_frame [of "snd ?b" P F d als "getText d" "[]"]
        by (simp add: scan_frame_def)
      from assms w True Inr have "calls s2 = calls (snd ?c)"
        by (auto simp: provideDocumentLinks_def split: prod.splits sum.splits)
      with w pb pc show ?thesis by (metis prefix_order.trans)
    qed
  qed
qed

subsection \<open>Evaluation of the POSIX paths used below\<close>

lemma init_fields:
  "configCache init = Map.empty" "configPathCache init = Map.empty"
  "documentLinkCache init = Map.empty" "lastIndex init = 0" "calls init = []"
  by (simp_all add: init_def)


lemma posix_eval_a:
  "posix_dirname ''/a'' = ''/''" "posix_root ''/a'' = ''/''" "posix_root ''/'' = ''/''"
  "posix_join ''/a'' ''tsconfig.json'' = ''/a/tsconfig.json''"
  "posix_join ''/a'' ''jsconfig.json'' = ''/a/jsconfig.json''"
  by code_simp+

subsection \<open>Normalised absolute POSIX paths\<close>











lemma abs_of_not_Nil: "abs_of segs \<noteq> []"
  by (cases segs) (simp_all add: abs_of_def)








lemma abs_of_child_not_root_file:
  "segs \<noteq> [] \<Longrightarrow> list_all plain segs \<Longrightarrow> abs_of (segs @ [x]) \<noteq> CHR ''/'' # x"
proof -
  assume a: "segs \<noteq> []" "list_all plain segs"
  then have "abs_of (segs @ [x]) = abs_of segs @ CHR ''/'' # x" by (simp add: abs_of_def)
  moreover from a have "abs_of segs \<noteq> []" by (simp add: abs_of_not_Nil)
  ultimately show ?thesis by simp
qed


lemma truthy_lookup_upd_None:
  "\<not> truthy (lookup m k) \<Longrightarrow> \<not> truthy (lookup (m(d \<mapsto> None)) k)"
  by simp




subsection \<open>Claim C10: a configuration file in the root directory\<close>




subsection \<open>Evaluation of the walk from \<^verbatim>\<open>/a\<close>\<close>

lemma posix_eval_ax: "posix_dirname ''/a/x.scss'' = ''/a''"
  by code_simp

lemma walked_a_fields:
  "configCache walked_a = Map.empty" "configPathCache walked_a = [''/a'' \<mapsto> None]"
  "documentLinkCache walked_a = Map.empty" "lastIndex walked_a = 0"
  "calls walked_a = [Access ''/a/tsconfig.json'', Access ''/a/jsconfig.json'']"
  by (simp_all add: walked_a_def init_def)

lemma walk_a:
  "findNearestConfig (posix ''/'') fs_empty ''/a'' init = Some (None, walked_a)"
  by (simp add: findNearestConfig_up findNearestConfig_at_root posix_def posix_eval_a
      fs_empty_def init_def walked_a_def probes_def)

lemma walk_a_again:
  "findNearestConfig (posix ''/'') fs_empty ''/a'' walked_a = Some (None, walked_a_twice)"
  by (simp add: findNearestConfig_up findNearestConfig_at_root posix_def posix_eval_a
      fs_empty_def init_def walked_a_def walked_a_twice_def probes_def)

subsection \<open>Claim C2: a cached "none" is not a cache hit\<close>

text \<open>
  Claim C2 says that a cache hit of the locator, a cached "none" included, touches the
  file system no more. The code stores \<^verbatim>\<open>null\<close> for a directory without configuration
  file, but tests the entry for truthiness: in the state \<open>walked_a\<close>, where the entry of
  \<^verbatim>\<open>/a\<close> is \<^verbatim>\<open>null\<close>, \<^verbatim>\<open>findNearestConfig('/a')\<close> probes both file names in \<^verbatim>\<open>/a\<close> again.
\<close>

theorem findNearestConfig_cached_none_probes_again:
  "configPathCache walked_a ''/a'' = Some None \<and>
   findNearestConfig (posix ''/'') fs_empty ''/a'' walked_a = Some (None, walked_a_twice) \<and>
   calls walked_a_twice = calls walked_a @ [Access ''/a/tsconfig.json'', Access ''/a/jsconfig.json'']"
  by (simp add: walk_a_again walked_a_fields walked_a_twice_def)

subsection \<open>Claim C3: no configuration file, nothing cached\<close>

text \<open>
  Claim C3 says that the empty result of a document without configuration file is cached
  under the name of the document, so that the next call does not walk again. Every call
  that completes its scan stores its sequence, empty or not, in the link cache; the
  return of line 185 leaves before that: after the call for \<open>doc_x\<close> the link cache has no
  entry for it.
\<close>

theorem provideDocumentLinks_no_config_not_cached:
  "provideDocumentLinks (posix ''/'') fs_empty JSON_parse_of doc_x init = Some (Inr [], walked_a) \<and>
   documentLinkCache walked_a (fileName doc_x) = None"
  by (simp add: provideDocumentLinks_def doc_x_def posix_def posix_eval_ax
      walk_a [unfolded posix_def] init_fields walked_a_fields)

text \<open>
  In general: when the link cache has no entry for the document and the walk from its
  directory ends without a configuration file, \<^verbatim>\<open>provideDocumentLinks\<close> returns the empty
  sequence and leaves the link cache as it was. The next call for the document walks
  again: unless the directory of the document is its own root, it starts with the probe
  of \<^verbatim>\<open>tsconfig.json\<close> in that directory.
\<close>

lemma provideDocumentLinks_no_config:
  assumes miss: "documentLinkCache s (fileName d) = None"
    and walk: "findNearestConfig P F (path_dirname P (fileName d)) s = Some (cfg, s1)"
    and none: "\<not> truthy cfg"
  shows "provideDocumentLinks P F J d s = Some (Inr [], s1) \<and>
     documentLinkCache s1 = documentLinkCache s \<and>
     (path_dirname P (fileName d) \<noteq> path_root P (path_dirname P (fileName d)) \<longrightarrow>
       (\<forall>F' J' r s2. provideDocumentLinks P F' J' d s1 = Some (r, s2) \<longrightarrow>
          (\<exists>cs. calls s2 = calls s1 @
             Access (path_join P (path_dirname P (fileName d)) ''tsconfig.json'') # cs)))"
proof (intro conjI impI allI)
  show "provideDocumentLinks P F J d s = Some (Inr [], s1)"
    using assms by (simp add: provideDocumentLinks_def)
  show same: "documentLinkCache s1 = documentLinkCache s"
    using findNearestConfig_frame [OF walk] by (simp add: walk_frame_def)
  fix F' J' r s2
  let ?dir = "path_dirname P (fileName d)"
  assume nr: "?dir \<noteq> path_root P ?dir"
    and second: "provideDocumentLinks P F' J' d s1 = Some (r, s2)"
  from findNearestConfig_falsy [OF walk] none nr
  have nc: "\<not> truthy (lookup (configPathCache s1) ?dir)"
    by (simp add: falsy_walk_def)
  from miss same have "documentLinkCache s1 (fileName d) = None" by simp
  from provideDocumentLinks_miss [OF this second] obtain cfg' s1' where
    w': "findNearestConfig P F' ?dir s1 = Some (cfg', s1')" and p: "prefix (calls s1') (calls s2)"
    by blast
  from findNearestConfig_miss_probes [OF nr nc w'] obtain cs where
    "calls s1' = calls s1 @ Access (path_join P ?dir ''tsconfig.json'') # cs" by blast
  with p show "\<exists>cs. calls s2 = calls s1 @ Access (path_join P ?dir ''tsconfig.json'') # cs"
    by (auto simp: prefix_def)
qed

subsection \<open>Claim C8: the second call\<close>

text \<open>
  Claim C8 says that for every document a second call returns the same sequence without
  any file system operation. For a document without configuration file nothing was
  cached, neither the links (line 185) nor, in effect, the directories of the walk
  (line 34): the second call for \<open>doc_x\<close> probes the directories again.
\<close>

theorem provideDocumentLinks_second_call_walks:
  "provideDocumentLinks (posix ''/'') fs_empty JSON_parse_of doc_x init = Some (Inr [], walked_a) \<and>
   provideDocumentLinks (posix ''/'') fs_empty JSON_parse_of doc_x walked_a =
     Some (Inr [], walked_a_twice) \<and>
   calls walked_a_twice \<noteq> calls walked_a"
  by (simp add: provideDocumentLinks_def doc_x_def posix_def posix_eval_ax
      walk_a [unfolded posix_def] walk_a_again [unfolded posix_def] init_fields walked_a_fields
      walked_a_twice_def)

text \<open>
  Where a configuration file is found, the second call is as claimed: when the first
  call returns a sequence of links, and was either answered from the link cache or
  found a configuration file, a second call for the document returns the same sequence
  and leaves the state as it is; it makes no call to the file system, whatever the file
  system holds by then.
\<close>

lemma provideDocumentLinks_second_call:
  assumes first: "provideDocumentLinks P F J d s = Some (Inr links, s1)"
    and located: "documentLinkCache s (fileName d) = None \<longrightarrow>
       (\<exists>cfg s0. findNearestConfig P F (path_dirname P (fileName d)) s = Some (cfg, s0) \<and>
          truthy cfg)"
  shows "provideDocumentLinks P' F' J' d s1 = Some (Inr links, s1)"
proof (cases "documentLinkCache s (fileName d)")
  case (Some cached)
  with first have "links = cached" "s1 = s" by (simp_all add: provideDocumentLinks_def)
  with Some show ?thesis by (simp add: provideDocumentLinks_def)
next
  case None
  with located obtain cfg s0 where
    w: "findNearestConfig P F (path_dirname P (fileName d)) s = Some (cfg, s0)" and t: "truthy cfg"
    by blast
  from first None w t have "documentLinkCache s1 (fileName d) = Some links"
    by (auto simp: provideDocumentLinks_def split: prod.splits sum.splits)
  then show ?thesis by (simp add: provideDocumentLinks_def)
qed

subsection \<open>The resolver\<close>

lemma startsWith_prefix: "startsWith s p = prefix p s"
  by (auto simp: startsWith_def prefix_def) (metis append_take_drop_id)

lemma replace_prefix: "prefix p s \<Longrightarrow> replace s p rep = rep @ drop (length p) s"
  by (cases s) (auto simp: startsWith_prefix)

lemma find_aliasKey_keys: "find_aliasKey imp als = Some k \<Longrightarrow> \<exists>bs. obj_get als k = Some bs"
proof -
  assume "find_aliasKey imp als = Some k"
  then have "k \<in> set (Object_keys als)"
    by (auto simp: find_aliasKey_def find_Some_iff)
  then have "k \<in> fst ` set als" by (simp add: Object_keys_def)
  then show ?thesis
    by (metis obj_get_def domIff dom_map_of_conv_image_fst not_Some_eq)
qed


text \<open>What \<^verbatim>\<open>tryWithExtensions\<close> returns: the first candidate that \<^verbatim>\<open>fs.access\<close> accepts.\<close>

lemma tryWithExtensions_find:
  "fst (tryWithExtensions P F d imp s) =
     find (fs_access F)
       (map (\<lambda>ext. path_join P (path_dirname P (fileName d)) imp @ ext) extensions)"
proof -
  have "fst (try_extensions F p exts s) = find (fs_access F) (map (\<lambda>ext. p @ ext) exts)"
    for p exts s
    by (induction exts arbitrary: s) (simp_all add: Let_def fileExists_def)
  then show ?thesis by (simp add: tryWithExtensions_def)
qed

subsection \<open>Claim C9: alias matching is a prefix test\<close>

text \<open>
  Claim C9 says that for every alias table and specifier the selected key is the first
  key, in the order of iteration, that is a prefix of the specifier, and that what is
  left of the specifier is joined to its base paths. The declaration \<^verbatim>\<open>"/*"\<close> gives the
  table the empty key, which is a prefix of every specifier. \<^verbatim>\<open>find\<close> returns it for
  \<^verbatim>\<open>index.scss\<close>, and \<^verbatim>\<open>index.scss\<close> joined to its base path \<^verbatim>\<open>/p/src/btn\<close> is a file; but
  \<^verbatim>\<open>!aliasKey\<close> is true for the empty string, so no key is selected and the specifier does
  not resolve. Nor does \<^verbatim>\<open>@a/btn\<close>, which resolves by the key \<^verbatim>\<open>@a\<close> in the table without
  the empty key: the later keys are not tried.
\<close>

theorem resolveAlias_empty_key_not_selected:
  "parse_aliases (posix ''/'') JSON_parse_of ''/p/tsconfig.json'' cfg_text_slash =
     Inr als_slash \<and>
   find_aliasKey ''index.scss'' als_slash = Some [] \<and>
   fst (try_basePaths (posix ''/'') (fs_proj cfg_text_slash) ''index.scss'' [''/p/src/btn'']
          init) = Inr (Some ''/p/src/btn/index.scss'') \<and>
   fst (resolveAlias (posix ''/'') (fs_proj cfg_text_slash) doc_main ''index.scss'' als_slash
          init) = Inr None \<and>
   fst (resolveAlias (posix ''/'') (fs_proj cfg_text_slash) doc_main ''@a/btn'' als_slash
          init) = Inr None \<and>
   fst (resolveAlias (posix ''/'') (fs_proj cfg_text_slash) doc_main ''@a/btn'' als_main
          init) = Inr (Some ''/p/src/btn/index.scss'')"
  by code_simp

text \<open>
  Claim C9, amended. Alias matching is a test for a prefix of the string, and no boundary
  of a path segment is required. Let \<open>k\<close> be the first key, in the order of
  \<^verbatim>\<open>Object.keys\<close>, that is a prefix of the specifier; it is what \<^verbatim>\<open>find\<close> returns. When \<open>k\<close>
  is not empty, it is the selected key: what is left of the specifier after \<open>k\<close> (for the
  key \<^verbatim>\<open>@a\<close> and the specifier \<^verbatim>\<open>@abc\<close>: \<^verbatim>\<open>bc\<close>) is joined to the base paths of \<open>k\<close>. When
  \<open>k\<close> is the empty string, no key is selected, no later key is tried, and the specifier
  is resolved by the relative fallback, as when no key matches.
\<close>

theorem resolveAlias_first_prefix_key:
  assumes "i < length (Object_keys als)" and "Object_keys als ! i = k" and "prefix k imp"
    and "\<forall>j<i. \<not> prefix (Object_keys als ! j) imp"
  shows "find_aliasKey imp als = Some k \<and>
     (k \<noteq> [] \<longrightarrow>
        (\<exists>bs. obj_get als k = Some bs \<and>
           resolveAlias P F d imp als s = try_basePaths P F (drop (length k) imp) bs s)) \<and>
     (k = [] \<longrightarrow>
        resolveAlias P F d imp als s =
          (Inr (fst (tryWithExtensions P F d imp s)), snd (tryWithExtensions P F d imp s)))"
proof -
  have sel: "find_aliasKey imp als = Some k"
    unfolding find_aliasKey_def find_Some_iff startsWith_prefix using assms by blast
  from find_aliasKey_keys [OF sel] obtain bs where bs: "obj_get als k = Some bs" by blast
  have "k \<noteq> [] \<Longrightarrow> resolveAlias P F d imp als s = try_basePaths P F (drop (length k) imp) bs s"
    using sel bs assms(3) by (simp add: resolveAlias_def replace_prefix)
  moreover have "k = [] \<Longrightarrow> resolveAlias P F d imp als s =
      (Inr (fst (tryWithExtensions P F d imp s)), snd (tryWithExtensions P F d imp s))"
    using sel by (simp add: resolveAlias_def Let_def)
  ultimately show ?thesis using sel bs by blast
qed

subsection \<open>Claim C7: an alias that leads to a directory\<close>


subsection \<open>Claim C6: the alias table is cached by modification time\<close>

text \<open>
  Claim C6. \<^verbatim>\<open>getTsConfigAliases\<close> first reads the modification time of the file. When the
  cache has an entry for the path with the same time, it returns the table of the entry
  and makes no other call: the file is neither read nor parsed. When the cache has no
  entry or one with another time, the file is read and parsed, and the new table and the
  time that was read replace the entry.
\<close>

theorem getTsConfigAliases_timestamp:
  assumes "fs_stat F cfg = Some st"
  shows "(\<forall>c. configCache s cfg = Some c \<and> lastModified c = mtimeMs st \<longrightarrow>
            getTsConfigAliases P F J cfg s =
              (Inr (aliases c), s\<lparr>calls := calls s @ [Stat cfg]\<rparr>)) \<and>
         ((\<forall>c. configCache s cfg = Some c \<longrightarrow> lastModified c \<noteq> mtimeMs st) \<longrightarrow>
            fs_readFile F cfg = Some configContent \<longrightarrow>
            parse_aliases P J cfg configContent = Inr als \<longrightarrow>
            getTsConfigAliases P F J cfg s =
              (Inr als,
               s\<lparr>calls := calls s @ [Stat cfg, ReadFile cfg, JSON_parse configContent],
                 configCache := (configCache s)(cfg \<mapsto>
                    \<lparr>aliases = als, lastModified = mtimeMs st, configPath = cfg\<rparr>)\<rparr>))"
proof (intro conjI allI impI)
  fix c
  assume "configCache s cfg = Some c \<and> lastModified c = mtimeMs st"
  with assms show "getTsConfigAliases P F J cfg s =
      (Inr (aliases c), s\<lparr>calls := calls s @ [Stat cfg]\<rparr>)"
    by (simp add: getTsConfigAliases_def cache_fresh_def called_def)
next
  assume "\<forall>c. configCache s cfg = Some c \<longrightarrow> lastModified c \<noteq> mtimeMs st"
  then have "\<not> cache_fresh (configCache s cfg) (mtimeMs st)"
    by (auto simp: cache_fresh_def split: option.splits)
  moreover assume "fs_readFile F cfg = Some configContent"
    and "parse_aliases P J cfg configContent = Inr als"
  ultimately show "getTsConfigAliases P F J cfg s =
              (Inr als,
               s\<lparr>calls := calls s @ [Stat cfg, ReadFile cfg, JSON_parse configContent],
                 configCache := (configCache s)(cfg \<mapsto>
                    \<lparr>aliases = als, lastModified = mtimeMs st, configPath = cfg\<rparr>)\<rparr>)"
    using assms by (simp add: getTsConfigAliases_def called_def Let_def)
qed

subsection \<open>Claim C1: which failures leave the link extraction\<close>

lemma try_basePaths_error:
  "fst (try_basePaths P F rel bs s) = Inl e \<Longrightarrow>
     e = FsError \<and> (\<exists>b \<in> set bs. fs_access F (path_join P b rel) \<and>
                       fs_stat F (path_join P b rel) = None)"
proof (induction bs arbitrary: s)
  case Nil
  then show ?case by simp
next
  case (Cons b bs)
  show ?case
  proof (cases "fs_access F (path_join P b rel)")
    case False
    with Cons.prems have
      "fst (try_basePaths P F rel bs (snd (fileExists F (path_join P b rel) s))) = Inl e"
      by (simp add: fileExists_def Let_def)
    from Cons.IH [OF this] show ?thesis by auto
  next
    case True
    with Cons.prems show ?thesis
      by (auto simp: fileExists_def Let_def split: option.splits if_splits)
  qed
qed

lemma resolveAlias_error:
  assumes "fst (resolveAlias P F d imp als s) = Inl e"
  shows "e = FsError \<and> truthy (find_aliasKey imp als) \<and>
     (\<exists>p. fs_access F p \<and> fs_stat F p = None)"
proof (cases "truthy (find_aliasKey imp als)")
  case False
  with assms show ?thesis by (simp add: resolveAlias_def Let_def)
next
  case True
  then obtain k where k: "find_aliasKey imp als = Some k" by (cases "find_aliasKey imp als") auto
  from find_aliasKey_keys [OF k] obtain bs where bs: "obj_get als k = Some bs" by blast
  from assms True k bs have "fst (try_basePaths P F (replace imp k '''') bs s) = Inl e"
    by (simp add: resolveAlias_def Let_def)
  from try_basePaths_error [OF this] True show ?thesis by blast
qed

lemma scan_imports_step:
  assumes "regex_exec tx (lastIndex s) = Some (i, m0, a)"
  shows "(resolveAlias P F d a als (s\<lparr>lastIndex := i + length m0\<rparr>) = (Inl e, t) \<longrightarrow>
            scan_imports P F d als tx links s = (Inl e, t)) \<and>
         (resolveAlias P F d a als (s\<lparr>lastIndex := i + length m0\<rparr>) = (Inr None, t) \<longrightarrow>
            scan_imports P F d als tx links s = scan_imports P F d als tx links t)"
  using assms by (subst scan_imports.simps, subst (3) scan_imports.simps) (simp add: Let_def)

lemma try_extensions_none:
  "(\<forall>ext \<in> set exts. \<not> fs_access F (p @ ext)) \<Longrightarrow> fst (try_extensions F p exts s) = None"
  by (induction exts arbitrary: s) (simp_all add: fileExists_def Let_def)

lemma try_basePaths_none:
  "(\<forall>b \<in> set bs. \<not> fs_access F (path_join P b rel)) \<Longrightarrow>
     fst (try_basePaths P F rel bs s) = Inr None"
  by (induction bs arbitrary: s) (simp_all add: fileExists_def Let_def)

text \<open>
  Claim C1, amended. Only the failure of an existence probe (\<^verbatim>\<open>fs.access\<close>) is absorbed;
  every other failure leaves \<^verbatim>\<open>provideDocumentLinks\<close>, which then produces no link for any
  specifier and leaves the link cache as it was. When the link cache has no entry for
  the document and a configuration file is found:

  \<^item> every error of the build of the alias table is the result of the call, and the link
    cache is unchanged;
  \<^item> the build fails with the file system's error when \<^verbatim>\<open>fs.stat\<close> rejects; when the table
    is not cached for the modification time, it fails with the file system's error when
    \<^verbatim>\<open>fs.readFile\<close> rejects and with every error of the parse (the SyntaxError of
    \<^verbatim>\<open>JSON.parse\<close>, the TypeError of a declaration that is no array of strings); for a text
    that does not parse the call ends with the SyntaxError after the stat, the read and
    the parse;
  \<^item> every error of the scan is the result of the call, and the link cache is unchanged;
  \<^item> in the scan, an error of \<^verbatim>\<open>resolveAlias\<close> ends the scan and the links collected so far
    are dropped, while a specifier that resolves to null is skipped: the scan goes on with
    the same links;
  \<^item> \<^verbatim>\<open>resolveAlias\<close> fails only with the file system's error, only when an alias key
    matched, and only when \<^verbatim>\<open>fs.stat\<close> rejects a path that \<^verbatim>\<open>fs.access\<close> accepted;
  \<^item> when every existence probe for a specifier fails (the four candidates of the
    relative fallback, or the joined path of every base path of the matched alias), the
    specifier resolves to null and no error is raised.
\<close>

theorem provideDocumentLinks_error_propagation:
  assumes miss: "documentLinkCache s (fileName d) = None"
    and walk: "findNearestConfig P F (path_dirname P (fileName d)) s = Some (Some cfg, s1)"
    and cfg: "cfg \<noteq> []"
  shows "(\<forall>e s2. getTsConfigAliases P F J cfg s1 = (Inl e, s2) \<longrightarrow>
            provideDocumentLinks P F J d s = Some (Inl e, s2) \<and>
            documentLinkCache s2 = documentLinkCache s) \<and>
         (fs_stat F cfg = None \<longrightarrow> fst (getTsConfigAliases P F J cfg s1) = Inl FsError) \<and>
         (\<forall>st. fs_stat F cfg = Some st \<and> \<not> cache_fresh (configCache s1 cfg) (mtimeMs st) \<longrightarrow>
            (fs_readFile F cfg = None \<longrightarrow> fst (getTsConfigAliases P F J cfg s1) = Inl FsError) \<and>
            (\<forall>content e. fs_readFile F cfg = Some content \<and>
                 parse_aliases P J cfg content = Inl e \<longrightarrow>
               fst (getTsConfigAliases P F J cfg s1) = Inl e) \<and>
            (\<forall>content. fs_readFile F cfg = Some content \<and> J content = None \<longrightarrow>
               provideDocumentLinks P F J d s =
                 Some (Inl SyntaxError,
                   s1\<lparr>calls := calls s1 @ [Stat cfg, ReadFile cfg, JSON_parse content]\<rparr>))) \<and>
         (\<forall>als s2 e s3. getTsConfigAliases P F J cfg s1 = (Inr als, s2) \<and>
              scan_imports P F d als (getText d) [] s2 = (Inl e, s3) \<longrightarrow>
            provideDocumentLinks P F J d s = Some (Inl e, s3) \<and>
            documentLinkCache s3 = documentLinkCache s) \<and>
         (\<forall>i m0 a. regex_exec tx (lastIndex s') = Some (i, m0, a) \<longrightarrow>
            (\<forall>e t. resolveAlias P F d a als' (s'\<lparr>lastIndex := i + length m0\<rparr>) = (Inl e, t) \<longrightarrow>
               scan_imports P F d als' tx links s' = (Inl e, t)) \<and>
            (\<forall>t. resolveAlias P F d a als' (s'\<lparr>lastIndex := i + length m0\<rparr>) = (Inr None, t) \<longrightarrow>
               scan_imports P F d als' tx links s' = scan_imports P F d als' tx links t)) \<and>
         (\<forall>e. fst (resolveAlias P F d imp als' s') = Inl e \<longrightarrow>
            e = FsError \<and> truthy (find_aliasKey imp als') \<and>
            (\<exists>p. fs_access F p \<and> fs_stat F p = None)) \<and>
         (\<not> truthy (find_aliasKey imp als') \<and>
            (\<forall>ext \<in> set extensions.
               \<not> fs_access F (path_join P (path_dirname P (fileName d)) imp @ ext)) \<longrightarrow>
            fst (resolveAlias P F d imp als' s') = Inr None) \<and>
         (\<forall>k bs. find_aliasKey imp als' = Some k \<and> k \<noteq> [] \<and> obj_get als' k = Some bs \<and>
              (\<forall>b \<in> set bs. \<not> fs_access F (path_join P b (replace imp k ''''))) \<longrightarrow>
            fst (resolveAlias P F d imp als' s') = Inr None)"
proof (intro conjI allI impI)
  have wf: "documentLinkCache s1 = documentLinkCache s"
    using findNearestConfig_frame [OF walk] by (simp add: walk_frame_def)
  {
    fix e s2 assume b: "getTsConfigAliases P F J cfg s1 = (Inl e, s2)"
    with miss walk cfg show "provideDocumentLinks P F J d s = Some (Inl e, s2)"
      by (simp add: provideDocumentLinks_def)
    from getTsConfigAliases_frame [of s1 P F J cfg] b wf
    show "documentLinkCache s2 = documentLinkCache s" by (simp add: build_frame_def)
  }
  {
    assume "fs_stat F cfg = None"
    then show "fst (getTsConfigAliases P F J cfg s1) = Inl FsError"
      by (simp add: getTsConfigAliases_def)
  }
  {
    fix st assume st: "fs_stat F cfg = Some st \<and> \<not> cache_fresh (configCache s1 cfg) (mtimeMs st)"
    then have st': "\<not> cache_fresh (configCache (called (Stat cfg) s1) cfg) (mtimeMs st)"
      by (simp add: called_def)
    {
      assume "fs_readFile F cfg = None"
      with st st' show "fst (getTsConfigAliases P F J cfg s1) = Inl FsError"
        by (simp add: getTsConfigAliases_def Let_def)
    }
    {
      fix content e
      assume "fs_readFile F cfg = Some content \<and> parse_aliases P J cfg content = Inl e"
      with st st' show "fst (getTsConfigAliases P F J cfg s1) = Inl e"
        by (simp add: getTsConfigAliases_def Let_def)
    }
    {
      fix content assume "fs_readFile F cfg = Some content \<and> J content = None"
      with st st' miss walk cfg show "provideDocumentLinks P F J d s =
          Some (Inl SyntaxError,
            s1\<lparr>calls := calls s1 @ [Stat cfg, ReadFile cfg, JSON_parse content]\<rparr>)"
        by (simp add: provideDocumentLinks_def getTsConfigAliases_def parse_aliases_def
            called_def Let_def)
    }
  }
  {
    fix als s2 e s3
    assume b: "getTsConfigAliases P F J cfg s1 = (Inr als, s2) \<and>
        scan_imports P F d als (getText d) [] s2 = (Inl e, s3)"
    with miss walk cfg show "provideDocumentLinks P F J d s = Some (Inl e, s3)"
      by (simp add: provideDocumentLinks_def)
    from getTsConfigAliases_frame [of s1 P F J cfg] b
    have "documentLinkCache s2 = documentLinkCache s1" by (simp add: build_frame_def)
    moreover from scan_imports_frame [of s2 P F d als "getText d" "[]"] b
    have "documentLinkCache s3 = documentLinkCache s2" by (simp add: scan_frame_def)
    ultimately show "documentLinkCache s3 = documentLinkCache s" using wf by simp
  }
  {
    fix i m0 a assume r: "regex_exec tx (lastIndex s') = Some (i, m0, a)"
    {
      fix e t
      assume "resolveAlias P F d a als' (s'\<lparr>lastIndex := i + length m0\<rparr>) = (Inl e, t)"
      with scan_imports_step [OF r] show "scan_imports P F d als' tx links s' = (Inl e, t)"
        by blast
    }
    {
      fix t
      assume "resolveAlias P F d a als' (s'\<lparr>lastIndex := i + length m0\<rparr>) = (Inr None, t)"
      with scan_imports_step [OF r]
      show "scan_imports P F d als' tx links s' = scan_imports P F d als' tx links t"
        by blast
    }
  }
  {
    fix e assume e: "fst (resolveAlias P F d imp als' s') = Inl e"
    from resolveAlias_error [OF e]
    show "e = FsError" "truthy (find_aliasKey imp als')"
      "\<exists>p. fs_access F p \<and> fs_stat F p = None"
      by simp_all
  }
  {
    assume "\<not> truthy (find_aliasKey imp als') \<and>
        (\<forall>ext \<in> set extensions.
           \<not> fs_access F (path_join P (path_dirname P (fileName d)) imp @ ext))"
    then show "fst (resolveAlias P F d imp als' s') = Inr None"
      by (simp add: resolveAlias_def tryWithExtensions_def Let_def try_extensions_none)
  }
  {
    fix k bs
    assume "find_aliasKey imp als' = Some k \<and> k \<noteq> [] \<and> obj_get als' k = Some bs \<and>
        (\<forall>b \<in> set bs. \<not> fs_access F (path_join P b (replace imp k '''')))"
    then show "fst (resolveAlias P F d imp als' s') = Inr None"
      by (simp add: resolveAlias_def Let_def try_basePaths_none)
  }
qed

subsection \<open>Evaluation in the project \<^verbatim>\<open>/p\<close>\<close>

lemma posix_eval_p:
  "posix_join ''/p/src'' ''/btn'' = ''/p/src/btn''"
  "posix_join ''/p/src/btn'' ''index.scss'' = ''/p/src/btn/index.scss''"
  "posix_join ''/p/src/btn'' ''main.scss'' = ''/p/src/btn/main.scss''"
  "posix_dirname ''/p/src/main.scss'' = ''/p/src''"
  by code_simp+

lemma fs_proj_eval:
  "fs_access (fs_proj c) ''/p/src/btn''"
  "fs_access (fs_proj c) ''/p/src/btn/index.scss''"
  "fs_access (fs_proj c) ''/p/src/btn/main.scss''"
  "fs_stat (fs_proj c) ''/p/src/btn'' = Some dir_stats"
  "fs_stat (fs_proj c) ''/p/tsconfig.json'' = Some file_stats"
  "fs_readFile (fs_proj c) ''/p/tsconfig.json'' = Some c"
  by (simp_all add: fs_proj_def proj_entries_def)

lemma parse_main:
  "parse_aliases (posix ''/'') JSON_parse_of ''/p/tsconfig.json'' cfg_text = Inr als_main"
  "JSON_parse_of ''{'' = None"
  by code_simp+

lemma walk_main:
  "map_option fst (findNearestConfig (posix ''/'') (fs_proj c) ''/p/src'' init) =
     Some (Some ''/p/tsconfig.json'')"
  by code_simp

lemma links_of_main:
  "map_option fst
     (provideDocumentLinks (posix ''/'') (fs_proj cfg_text) JSON_parse_of doc_main init) =
   Some (Inr links_main)"
  by code_simp

subsection \<open>The theorems above at concrete inputs\<close>

text \<open>
  Claim C9, amended, in the project: the key \<^verbatim>\<open>@a\<close> matches the specifier \<^verbatim>\<open>@abc\<close>, and \<^verbatim>\<open>bc\<close>
  is joined to the base path \<^verbatim>\<open>/p/src\<close>; with the empty key first in the table, \<^verbatim>\<open>@a/btn\<close>
  goes to the relative fallback, which finds nothing.
\<close>

theorem resolveAlias_first_prefix_key_witness:
  "0 < length (Object_keys als_main) \<and> Object_keys als_main ! 0 = ''@a'' \<and>
   prefix ''@a'' ''@abc'' \<and>
   find_aliasKey ''@abc'' als_main = Some ''@a'' \<and>
   resolveAlias (posix ''/'') (fs_proj cfg_text) doc_main ''@abc'' als_main init =
     try_basePaths (posix ''/'') (fs_proj cfg_text) ''bc'' [''/p/src''] init \<and>
   fst (try_basePaths (posix ''/'') (fs_proj cfg_text) ''bc'' [''/p/src''] init) =
     Inr (Some ''/p/src/bc'') \<and>
   0 < length (Object_keys als_slash) \<and> Object_keys als_slash ! 0 = [] \<and>
   prefix [] ''@a/btn'' \<and>
   find_aliasKey ''@a/btn'' als_slash = Some [] \<and>
   resolveAlias (posix ''/'') (fs_proj cfg_text) doc_main ''@a/btn'' als_slash init =
     (Inr (fst (tryWithExtensions (posix ''/'') (fs_proj cfg_text) doc_main ''@a/btn'' init)),
      snd (tryWithExtensions (posix ''/'') (fs_proj cfg_text) doc_main ''@a/btn'' init)) \<and>
   fst (tryWithExtensions (posix ''/'') (fs_proj cfg_text) doc_main ''@a/btn'' init) = None"
proof -
  have a: "fst (try_basePaths (posix ''/'') (fs_proj cfg_text) ''bc'' [''/p/src''] init) =
     Inr (Some ''/p/src/bc'')"
    by code_simp
  have b: "fst (tryWithExtensions (posix ''/'') (fs_proj cfg_text) doc_main ''@a/btn'' init) =
     None"
    by code_simp
  have c: "find_aliasKey ''@abc'' als_main = Some ''@a'' \<and>
     resolveAlias (posix ''/'') (fs_proj cfg_text) doc_main ''@abc'' als_main init =
       try_basePaths (posix ''/'') (fs_proj cfg_text) ''bc'' [''/p/src''] init"
    using resolveAlias_first_prefix_key [of 0 als_main "''@a''" "''@abc''" "posix ''/''"
        "fs_proj cfg_text" doc_main init]
    by (simp add: als_main_def Object_keys_def obj_get_def)
  have e: "find_aliasKey ''@a/btn'' als_slash = Some [] \<and>
     resolveAlias (posix ''/'') (fs_proj cfg_text) doc_main ''@a/btn'' als_slash init =
       (Inr (fst (tryWithExtensions (posix ''/'') (fs_proj cfg_text) doc_main ''@a/btn'' init)),
        snd (tryWithExtensions (posix ''/'') (fs_proj cfg_text) doc_main ''@a/btn'' init))"
    using resolveAlias_first_prefix_key [of 0 als_slash "[]" "''@a/btn''" "posix ''/''"
        "fs_proj cfg_text" doc_main init]
    by (simp add: als_slash_def Object_keys_def)
  from a b c e show ?thesis
    by (simp add: als_main_def als_slash_def Object_keys_def)
qed


text \<open>
  Claim C6 in the project. With an entry of the same time 1000 the cached table is
  returned although the file no longer parses; with an entry of the time 999 the file is
  read and parsed and the entry replaced.
\<close>

theorem getTsConfigAliases_timestamp_witness:
  "fs_stat (fs_proj ''{'') ''/p/tsconfig.json'' = Some file_stats \<and>
   getTsConfigAliases (posix ''/'') (fs_proj ''{'') JSON_parse_of ''/p/tsconfig.json''
       (cached_at 1000 als_main) =
     (Inr als_main, (cached_at 1000 als_main)\<lparr>calls := [Stat ''/p/tsconfig.json'']\<rparr>) \<and>
   getTsConfigAliases (posix ''/'') (fs_proj cfg_text) JSON_parse_of ''/p/tsconfig.json''
       (cached_at 999 []) =
     (Inr als_main,
      (cached_at 1000 als_main)\<lparr>calls := [Stat ''/p/tsconfig.json'',
         ReadFile ''/p/tsconfig.json'', JSON_parse cfg_text]\<rparr>)"
  using getTsConfigAliases_timestamp [of "fs_proj ''{''" "''/p/tsconfig.json''" file_stats
      "cached_at 1000 als_main" "posix ''/''" JSON_parse_of "''{''" als_main]
    getTsConfigAliases_timestamp [of "fs_proj cfg_text" "''/p/tsconfig.json''" file_stats
      "cached_at 999 []" "posix ''/''" JSON_parse_of cfg_text als_main]
  by (simp add: fs_proj_eval parse_main cached_at_def file_stats_def init_def)

text \<open>
  Claim C1 says that no error crosses the boundary of the link extraction, and that a
  configuration file that does not parse costs no other specifier its link. With the
  text \<^verbatim>\<open>{\<close> in \<^verbatim>\<open>/p/tsconfig.json\<close> the call for \<open>doc_main\<close> ends with the SyntaxError,
  although its specifier \<^verbatim>\<open>./bc\<close> resolves without any alias.
\<close>

theorem provideDocumentLinks_error_crosses:
  "map_option fst
     (provideDocumentLinks (posix ''/'') (fs_proj ''{'') JSON_parse_of doc_main init) =
     Some (Inl SyntaxError) \<and>
   fst (resolveAlias (posix ''/'') (fs_proj ''{'') doc_main ''./bc'' [] init) =
     Inr (Some ''/p/src/bc'')"
  by code_simp

text \<open>
  Claim C1, amended, in the project: with the text \<^verbatim>\<open>{\<close> the build and the call end with
  the SyntaxError and the link cache is unchanged; the specifier \<^verbatim>\<open>./nope\<close>, whose four
  probes fail, resolves to null.
\<close>

theorem provideDocumentLinks_error_propagation_witness:
  "\<exists>s1. findNearestConfig (posix ''/'') (fs_proj ''{'') ''/p/src'' init =
          Some (Some ''/p/tsconfig.json'', s1) \<and>
        getTsConfigAliases (posix ''/'') (fs_proj ''{'') JSON_parse_of ''/p/tsconfig.json'' s1 =
          (Inl SyntaxError,
            s1\<lparr>calls := calls s1 @ [Stat ''/p/tsconfig.json'', ReadFile ''/p/tsconfig.json'',
                   JSON_parse ''{'']\<rparr>) \<and>
        provideDocumentLinks (posix ''/'') (fs_proj ''{'') JSON_parse_of doc_main init =
          Some (Inl SyntaxError,
            s1\<lparr>calls := calls s1 @ [Stat ''/p/tsconfig.json'', ReadFile ''/p/tsconfig.json'',
                   JSON_parse ''{'']\<rparr>) \<and>
        documentLinkCache
          (s1\<lparr>calls := calls s1 @ [Stat ''/p/tsconfig.json'', ReadFile ''/p/tsconfig.json'',
                   JSON_parse ''{'']\<rparr>) = documentLinkCache init \<and>
        fst (resolveAlias (posix ''/'') (fs_proj ''{'') doc_main ''./nope'' [] init) = Inr None"
proof -
  from walk_main [of "''{''"] obtain s1 where
    w: "findNearestConfig (posix ''/'') (fs_proj ''{'') ''/p/src'' init =
          Some (Some ''/p/tsconfig.json'', s1)"
    by auto
  from findNearestConfig_frame [OF w] have "configCache s1 = Map.empty"
    by (simp add: walk_frame_def init_fields)
  then have stale: "\<not> cache_fresh (configCache s1 ''/p/tsconfig.json'') (mtimeMs file_stats)"
    by (simp add: cache_fresh_def)
  have none: "\<not> truthy (find_aliasKey ''./nope'' []) \<and>
      (\<forall>ext \<in> set extensions.
         \<not> fs_access (fs_proj ''{'')
             (path_join (posix ''/'') (path_dirname (posix ''/'') (fileName doc_main)) ''./nope''
                @ ext))"
    by code_simp
  have w': "findNearestConfig (posix ''/'') (fs_proj ''{'')
      (path_dirname (posix ''/'') (fileName doc_main)) init = Some (Some ''/p/tsconfig.json'', s1)"
    using w by (simp add: doc_main_def posix_def posix_eval_p)
  have m: "documentLinkCache init (fileName doc_main) = None"
    by (simp add: init_fields)
  have c0: "''/p/tsconfig.json'' \<noteq> []" by simp
  note t = provideDocumentLinks_error_propagation [OF m w' c0,
      where J = JSON_parse_of and imp = "''./nope''" and als' = "[]" and s' = init]
  have b: "getTsConfigAliases (posix ''/'') (fs_proj ''{'') JSON_parse_of ''/p/tsconfig.json'' s1 =
          (Inl SyntaxError,
            s1\<lparr>calls := calls s1 @ [Stat ''/p/tsconfig.json'', ReadFile ''/p/tsconfig.json'',
                   JSON_parse ''{'']\<rparr>)"
    using stale
    by (simp add: getTsConfigAliases_def parse_aliases_def called_def Let_def fs_proj_eval
        parse_main)
  have p: "provideDocumentLinks (posix ''/'') (fs_proj ''{'') JSON_parse_of doc_main init =
          Some (Inl SyntaxError,
            s1\<lparr>calls := calls s1 @ [Stat ''/p/tsconfig.json'', ReadFile ''/p/tsconfig.json'',
                   JSON_parse ''{'']\<rparr>)"
    using t b by simp
  have c: "documentLinkCache
          (s1\<lparr>calls := calls s1 @ [Stat ''/p/tsconfig.json'', ReadFile ''/p/tsconfig.json'',
                   JSON_parse ''{'']\<rparr>) = documentLinkCache init"
    using t b by simp
  have r: "fst (resolveAlias (posix ''/'') (fs_proj ''{'') doc_main ''./nope'' [] init) = Inr None"
    using t none by blast
  from w b p c r show ?thesis by blast
qed

subsection \<open>Claim C4: the relative fallback returns a directory\<close>

text \<open>
  Claim C4 says that a specifier without alias resolves to the first of the candidates
  \<^verbatim>\<open>foo\<close>, \<^verbatim>\<open>foo.sass\<close>, \<^verbatim>\<open>foo.scss\<close>, \<^verbatim>\<open>foo.css\<close> that exists as a file, so that
  \<^verbatim>\<open>./foo\<close> with \<^verbatim>\<open>foo.scss\<close> and \<^verbatim>\<open>foo.css\<close> present resolves to \<^verbatim>\<open>foo.scss\<close>. The
  order of the candidates is as claimed (lemma \<open>tryWithExtensions_find\<close>), but the test
  is \<^verbatim>\<open>fs.access\<close>, which a readable directory passes: with a directory \<^verbatim>\<open>/p/src/foo\<close>
  beside the two files, the result is the directory.
\<close>

theorem tryWithExtensions_returns_directory:
  "find_aliasKey ''./foo'' als_main = None \<and>
   fs_stat (fs_proj cfg_text) ''/p/src/foo'' = Some dir_stats \<and>
   fs_stat (fs_proj cfg_text) ''/p/src/foo.scss'' = Some file_stats \<and>
   fs_access (fs_proj cfg_text) ''/p/src/foo.scss'' \<and>
   fs_access (fs_proj cfg_text) ''/p/src/foo.css'' \<and>
   fst (resolveAlias (posix ''/'') (fs_proj cfg_text) doc_main ''./foo'' als_main init) =
     Inr (Some ''/p/src/foo'')"
  by code_simp

subsection \<open>Claim C5: the normalisation of the alias declarations\<close>







lemma suffix_wild_Cons:
  "\<not> startsWith (c # p) ''/*'' \<Longrightarrow> suffix ''/*'' (c # p) = suffix ''/*'' p"
  apply (auto simp: suffix_Cons startsWith_def)
  done

lemma replace_trailing_only:
  "(\<forall>j. j + 2 < length p \<longrightarrow> \<not> startsWith (drop j p) ''/*'') \<Longrightarrow>
     replace p ''/*'' '''' = spec_strip_trailing_wildcard p"
proof (induction p)
  case Nil
  then show ?case by (simp add: spec_strip_trailing_wildcard_def)
next
  case (Cons c p)
  show ?case
  proof (cases "startsWith (c # p) ''/*''")
    case True
    with Cons.prems have "\<not> (0 + 2 < length (c # p))" by (metis drop0)
    with True have "c # p = ''/*''"
      by (cases p; cases "tl p") (auto simp: startsWith_def)
    then show ?thesis by (simp add: spec_strip_trailing_wildcard_def startsWith_def)
  next
    case False
    have "\<forall>j. j + 2 < length p \<longrightarrow> \<not> startsWith (drop j p) ''/*''"
    proof (intro allI impI)
      fix j assume "j + 2 < length p"
      then have "Suc j + 2 < length (c # p)" by simp
      with Cons.prems have "\<not> startsWith (drop (Suc j) (c # p)) ''/*''" by blast
      then show "\<not> startsWith (drop j p) ''/*''" by simp
    qed
    from Cons.IH [OF this] have ih: "replace p ''/*'' '''' = spec_strip_trailing_wildcard p" .
    have "2 \<le> length p" if "suffix ''/*'' p"
      using that by (auto simp: suffix_def)
    moreover have "take (length p - Suc 0) (c # p) = c # take (length p - 2) p"
      if "2 \<le> length p"
    proof -
      from that have "length p - Suc 0 = Suc (length p - 2)" by simp
      then show ?thesis by simp
    qed
    ultimately have "spec_strip_trailing_wildcard (c # p) = c # spec_strip_trailing_wildcard p"
      using False
      by (auto simp: spec_strip_trailing_wildcard_def suffix_wild_Cons)
    with False ih show ?thesis by simp
  qed
qed












end
